theory Spec2Isabelle
  imports Main "HOL-Library.AList" "HOL-Library.Multiset" "HOL-Library.Sublist"
begin

section \<open>JavaScript strings\<close>

text \<open>
  A JavaScript string is modelled as a \<^typ>\<open>string\<close> of ASCII characters. The string
  methods the server calls are written out below; \<open>toLowerCase\<close> and the regular
  expression character classes act on the ASCII letters and digits, \<open>trim\<close> on the
  ASCII white space.
\<close>

definition is_upper :: "char \<Rightarrow> bool" where
  "is_upper c = (let n = (of_char c :: nat) in 65 \<le> n \<and> n \<le> 90)"

definition is_lower :: "char \<Rightarrow> bool" where
  "is_lower c = (let n = (of_char c :: nat) in 97 \<le> n \<and> n \<le> 122)"

definition is_digit :: "char \<Rightarrow> bool" where
  "is_digit c = (let n = (of_char c :: nat) in 48 \<le> n \<and> n \<le> 57)"

definition is_space :: "char \<Rightarrow> bool" where
  "is_space c = (c = CHR '' '' \<or> (let n = (of_char c :: nat) in 9 \<le> n \<and> n \<le> 13))"

definition lower_char :: "char \<Rightarrow> char" where
  "lower_char c = (if is_upper c then char_of ((of_char c :: nat) + 32) else c)"

definition toLowerCase :: "string \<Rightarrow> string" where
  "toLowerCase s = map lower_char s"

fun startsWith :: "string \<Rightarrow> string \<Rightarrow> bool" where
  "startsWith s [] = True"
| "startsWith [] (p # ps) = False"
| "startsWith (c # cs) (p # ps) = (c = p \<and> startsWith cs ps)"

text \<open>\<open>s.split(sep)\<close> for a separator of one character: never an empty array.\<close>

fun split :: "char \<Rightarrow> string \<Rightarrow> string list" where
  "split sep [] = [[]]"
| "split sep (c # cs) =
     (if c = sep then [] # split sep cs
      else (case split sep cs of
              [] \<Rightarrow> [[c]]
            | w # ws \<Rightarrow> (c # w) # ws))"

definition trim :: "string \<Rightarrow> string" where
  "trim s = rev (dropWhile is_space (rev (dropWhile is_space s)))"

section \<open>Authentication middleware\<close>

text \<open>
  The identity provider is outside the server: \<open>client.verifyIdToken\<close> and the
  \<open>fetch\<close> of the userinfo endpoint are parameters of the model. Each either throws
  (the promise is rejected) or returns. A payload is \<open>undefined\<close> or an object whose
  \<open>email\<close> field may be missing.
\<close>

datatype 'a attempt = Throws | Returns 'a

datatype payload = Undefined | Payload (email: "string option")

record fetch_response =
  ok :: bool
  json :: "payload attempt"

record auth_env =
  ALLOWED_EMAILS :: "string option"
  verifyIdToken :: "string \<Rightarrow> payload attempt"
  fetch_userinfo :: "string \<Rightarrow> fetch_response attempt"

datatype auth_body =
    ConfigurationError
  | AccessDenied "string option"

datatype auth_result =
    SendStatus nat
  | StatusJson nat auth_body
  | Next payload

text \<open>
  \<open>authHeader && authHeader.split(' ')[1]\<close>: the second word of the header, and the
  empty string is falsy like a missing one.
\<close>

definition bearer_token :: "string option \<Rightarrow> string option" where
  "bearer_token authHeader =
     (case authHeader of
        None \<Rightarrow> None
      | Some h \<Rightarrow>
          (case split CHR '' '' h of
             _ # t # _ \<Rightarrow> (if t = [] then None else Some t)
           | _ \<Rightarrow> None))"

text \<open>
  The inner \<open>try\<close>: the ID token first, then the access token. \<open>None\<close> is the inner
  \<open>catch (accessTokenError)\<close>.
\<close>

definition verify_token :: "auth_env \<Rightarrow> string \<Rightarrow> payload option" where
  "verify_token env token =
     (case verifyIdToken env token of
        Returns p \<Rightarrow> Some p
      | Throws \<Rightarrow>
          (case fetch_userinfo env token of
             Throws \<Rightarrow> None
           | Returns response \<Rightarrow>
               (if \<not> ok response then None
                else (case json response of
                        Throws \<Rightarrow> None
                      | Returns p \<Rightarrow> Some p))))"

definition allowedEmails :: "auth_env \<Rightarrow> string list" where
  "allowedEmails env =
     (case ALLOWED_EMAILS env of
        None \<Rightarrow> []
      | Some s \<Rightarrow> map trim (split CHR '','' s))"

definition authenticateToken :: "auth_env \<Rightarrow> string option \<Rightarrow> auth_result" where
  "authenticateToken env authHeader =
     (case bearer_token authHeader of
        None \<Rightarrow> SendStatus 401
      | Some token \<Rightarrow>
          (case verify_token env token of
             None \<Rightarrow> SendStatus 403
           | Some p \<Rightarrow>
               (if length (allowedEmails env) = 0 then StatusJson 500 ConfigurationError
                else (case p of
                        Undefined \<Rightarrow> SendStatus 403
                      | Payload e \<Rightarrow>
                          (case e of
                             None \<Rightarrow> StatusJson 403 (AccessDenied None)
                           | Some a \<Rightarrow>
                               (if a \<in> set (allowedEmails env) then Next p
                                else StatusJson 403 (AccessDenied (Some a))))))))"

text \<open>Both verification paths fail for a token: the condition of claim C1.\<close>

definition both_paths_fail :: "auth_env \<Rightarrow> string \<Rightarrow> bool" where
  "both_paths_fail env token =
     (verifyIdToken env token = Throws \<and>
      (case fetch_userinfo env token of
         Throws \<Rightarrow> True
       | Returns response \<Rightarrow> \<not> ok response \<or> json response = Throws))"

text \<open>An identity provider that rejects every token, with one allowed address.\<close>

definition rejecting_env :: auth_env where
  "rejecting_env =
     \<lparr>ALLOWED_EMAILS = Some ''alice@example.com'',
      verifyIdToken = (\<lambda>t. Throws),
      fetch_userinfo = (\<lambda>t. Returns \<lparr>ok = False, json = Throws\<rparr>)\<rparr>"

section \<open>Paths\<close>

text \<open>
  \<open>path.extname\<close> of Node, on POSIX: the extension of the last component of the
  path (trailing slashes dropped), from its last dot; empty when that component has no
  dot, when its only dot is its first character, and when it is \<open>..\<close>.
\<close>

definition basename_of :: "string \<Rightarrow> string" where
  "basename_of p =
     rev (takeWhile (\<lambda>c. c \<noteq> CHR ''/'') (dropWhile (\<lambda>c. c = CHR ''/'') (rev p)))"

definition extname :: "string \<Rightarrow> string" where
  "extname p =
     (let b = basename_of p;
          e = rev (takeWhile (\<lambda>c. c \<noteq> CHR ''.'') (rev b))
      in if CHR ''.'' \<notin> set b then []
         else if length e + 1 = length b then []
         else if b = ''..'' then []
         else CHR ''.'' # e)"

text \<open>
  A path value is kept as the list of its components below the file system root, already
  normalised; a final empty component is the slash the path ends in.
  \<open>path.join(base, a, b, ...)\<close> glues its non-empty arguments with slashes and
  normalises: empty components and \<open>.\<close> vanish, \<open>..\<close> drops the component before it,
  and the result ends in a slash when the glued string does, the root apart. The base
  is a path that does not end in a slash (\<open>__dirname\<close>, a directory joined before).
  The server's relative paths (\<open>'uploads'\<close>) are resolved against the working directory
  of the process, which is taken to be \<open>__dirname\<close>, as the absolute paths of the share
  page and the cleanup job are.
\<close>

type_synonym path = "string list"

definition join_step :: "path \<Rightarrow> string \<Rightarrow> path" where
  "join_step p c =
     (if c = [] \<or> c = ''.'' then p
      else if c = ''..'' then butlast p
      else p @ [c])"

definition ends_with_slash :: "string list \<Rightarrow> bool" where
  "ends_with_slash args =
     (case rev (filter (\<lambda>a. a \<noteq> []) args) of
        [] \<Rightarrow> False
      | a # _ \<Rightarrow> last a = CHR ''/'')"

definition path_join :: "path \<Rightarrow> string list \<Rightarrow> path" where
  "path_join base args =
     (let p = foldl join_step base (concat (map (split CHR ''/'') args))
      in if p \<noteq> [] \<and> ends_with_slash args then p @ [[]] else p)"

section \<open>Upload validation\<close>

record upload_file =
  originalname :: string
  mimetype :: string
  byte_count :: nat

definition allowedExtensions :: "string list" where
  "allowedExtensions =
     [''.mp4'', ''.avi'', ''.mov'', ''.wmv'', ''.flv'', ''.webm'', ''.mkv'', ''.m4v'', ''.3gp'']"

definition allowedMimeTypes :: "string list" where
  "allowedMimeTypes =
     [''video/mp4'', ''video/avi'', ''video/quicktime'', ''video/x-msvideo'', ''video/x-flv'',
      ''video/webm'', ''video/x-matroska'', ''video/3gpp'', ''video/x-m4v'',
      ''video/mp4v-es'', ''video/x-mp4'', ''video/h264'']"

definition hasValidExtension :: "upload_file \<Rightarrow> bool" where
  "hasValidExtension file =
     (extname (toLowerCase (originalname file)) \<in> set allowedExtensions)"

definition hasValidMimeType :: "upload_file \<Rightarrow> bool" where
  "hasValidMimeType file =
     (mimetype file \<in> set allowedMimeTypes \<or>
      startsWith (mimetype file) ''video/'' \<or>
      (mimetype file = ''application/octet-stream'' \<and> hasValidExtension file))"

text \<open>\<open>True\<close> is \<open>cb(null, true)\<close>, \<open>False\<close> is \<open>cb(new Error(...))\<close>.\<close>

definition videoFileFilter :: "upload_file \<Rightarrow> bool" where
  "videoFileFilter file = (hasValidExtension file \<or> hasValidMimeType file)"

section \<open>Dates and the stored file name\<close>

text \<open>
  A \<open>Date\<close> is its time value: milliseconds since the epoch, in UTC. \<open>toISOString\<close>
  prints \<open>YYYY-MM-DDTHH:mm:ss.sssZ\<close>; the year has four digits from 0 to 9999 and a
  sign and six digits otherwise. The calendar date comes from the count of days since
  the epoch by the proleptic Gregorian calendar.
\<close>

definition digit_char :: "nat \<Rightarrow> char" where
  "digit_char n = char_of (48 + n)"

fun pad :: "nat \<Rightarrow> nat \<Rightarrow> string" where
  "pad 0 n = []"
| "pad (Suc k) n = pad k (n div 10) @ [digit_char (n mod 10)]"

definition civil_from_days :: "int \<Rightarrow> int \<times> nat \<times> nat" where
  "civil_from_days days =
     (let z = days + 719468;
          era = z div 146097;
          doe = z - era * 146097;
          yoe = (doe - doe div 1460 + doe div 36524 - doe div 146096) div 365;
          doy = doe - (365 * yoe + yoe div 4 - yoe div 100);
          mp = (5 * doy + 2) div 153;
          d = doy - (153 * mp + 2) div 5 + 1;
          m = (if mp < 10 then mp + 3 else mp - 9);
          y = yoe + era * 400 + (if m \<le> 2 then 1 else 0)
      in (y, nat m, nat d))"

definition iso_year :: "int \<Rightarrow> string" where
  "iso_year y =
     (if 0 \<le> y \<and> y \<le> 9999 then pad 4 (nat y)
      else (if y < 0 then ''-'' else ''+'') @ pad 6 (nat \<bar>y\<bar>))"

text \<open>The part of the ISO string that the whole second decides.\<close>

definition iso_seconds :: "int \<Rightarrow> string" where
  "iso_seconds secs =
     (let (y, m, d) = civil_from_days (secs div 86400);
          sod = nat (secs mod 86400)
      in iso_year y @ ''-'' @ pad 2 m @ ''-'' @ pad 2 d @ ''T'' @
         pad 2 (sod div 3600) @ '':'' @ pad 2 (sod div 60 mod 60) @ '':'' @
         pad 2 (sod mod 60))"

definition toISOString :: "int \<Rightarrow> string" where
  "toISOString t = iso_seconds (t div 1000) @ ''.'' @ pad 3 (nat (t mod 1000)) @ ''Z''"

text \<open>\<open>.replace(/[:.-]/g, '_')\<close>\<close>

definition replace_unsafe :: "string \<Rightarrow> string" where
  "replace_unsafe s =
     map (\<lambda>c. if c = CHR '':'' \<or> c = CHR ''.'' \<or> c = CHR ''-'' then CHR ''_'' else c) s"

text \<open>The \<open>filename\<close> callback of the disk storage; \<open>now\<close> is \<open>new Date()\<close>.\<close>

definition storage_filename :: "int \<Rightarrow> upload_file \<Rightarrow> string" where
  "storage_filename now file =
     replace_unsafe (toISOString now) @ extname (originalname file)"

section \<open>The file system\<close>

text \<open>
  The file system is a tree: a regular file, or a directory with its entries in the
  order \<open>readdir\<close> lists them. Every node carries what \<open>fs.stat\<close> reports of it and
  the server reads: the birth time (milliseconds since the epoch) and the size.
\<close>

record stats =
  birthtime :: int
  bytes :: nat

datatype node = File stats | Dir stats "(string \<times> node) list"

fun stats_of :: "node \<Rightarrow> stats" where
  "stats_of (File st) = st"
| "stats_of (Dir st es) = st"

fun isDirectory :: "node \<Rightarrow> bool" where
  "isDirectory (File st) = False"
| "isDirectory (Dir st es) = True"

fun lookup :: "node \<Rightarrow> path \<Rightarrow> node option" where
  "lookup n [] = Some n"
| "lookup (File st) (c # cs) = None"
| "lookup (Dir st es) (c # cs) =
     (case map_of es c of
        None \<Rightarrow> None
      | Some child \<Rightarrow> lookup child cs)"

text \<open>
  A path that ends in a slash resolves to the directory before the slash, and to nothing
  when a regular file or no entry is there. The server hands such a path only to
  \<open>fs.existsSync\<close> and \<open>fs.remove\<close>, from the file name of a route; every other call
  gets a path joined from names that hold no slash.
\<close>

definition resolve :: "node \<Rightarrow> path \<Rightarrow> node option" where
  "resolve fs p =
     (if p \<noteq> [] \<and> last p = []
      then (case lookup fs (butlast p) of
              Some (Dir st es) \<Rightarrow> Some (Dir st es)
            | _ \<Rightarrow> None)
      else lookup fs p)"

definition existsSync :: "node \<Rightarrow> path \<Rightarrow> bool" where
  "existsSync fs p = (resolve fs p \<noteq> None)"

text \<open>\<open>fs.readdir\<close>: the names in a directory; \<open>None\<close> is its error.\<close>

definition readdir :: "node \<Rightarrow> path \<Rightarrow> string list option" where
  "readdir fs p =
     (case lookup fs p of
        Some (Dir st es) \<Rightarrow> Some (map fst es)
      | _ \<Rightarrow> None)"

text \<open>The node at a path replaced by its image under \<open>f\<close>; nothing happens when no node is there.\<close>

fun modify_at :: "path \<Rightarrow> (node \<Rightarrow> node) \<Rightarrow> node \<Rightarrow> node" where
  "modify_at [] f n = f n"
| "modify_at (c # cs) f (File st) = File st"
| "modify_at (c # cs) f (Dir st es) =
     (case map_of es c of
        None \<Rightarrow> Dir st es
      | Some child \<Rightarrow> Dir st (AList.update c (modify_at cs f child) es))"

fun del_entry :: "string \<Rightarrow> node \<Rightarrow> node" where
  "del_entry c (File st) = File st"
| "del_entry c (Dir st es) = Dir st (AList.delete c es)"

fun put_entry :: "string \<Rightarrow> node \<Rightarrow> node \<Rightarrow> node" where
  "put_entry c v (File st) = File st"
| "put_entry c v (Dir st es) = Dir st (AList.update c v es)"

text \<open>
  \<open>fs.remove\<close> of fs-extra: the file or the whole directory at the path goes; a path
  where nothing is, is left in peace. \<open>None\<close> is its error: the root cannot be removed,
  and neither can a regular file through a path that ends in a slash.
\<close>

definition remove_entry :: "path \<Rightarrow> node \<Rightarrow> node option" where
  "remove_entry p fs =
     (if p = [] then None
      else Some (modify_at (butlast p) (del_entry (last p)) fs))"

definition remove :: "path \<Rightarrow> node \<Rightarrow> node option" where
  "remove p fs =
     (if p \<noteq> [] \<and> last p = []
      then (case lookup fs (butlast p) of
              Some (File st) \<Rightarrow> None
            | _ \<Rightarrow> remove_entry (butlast p) fs)
      else remove_entry p fs)"

text \<open>
  \<open>fs.ensureDirSync\<close>: the directory and its missing ancestors are created, at time
  \<open>t\<close>; an existing directory is success. \<open>None\<close> is the exception it throws when a
  component of the path is a regular file.
\<close>

fun fresh_dirs :: "int \<Rightarrow> path \<Rightarrow> node" where
  "fresh_dirs t [] = Dir \<lparr>birthtime = t, bytes = 0\<rparr> []"
| "fresh_dirs t (c # cs) = Dir \<lparr>birthtime = t, bytes = 0\<rparr> [(c, fresh_dirs t cs)]"

fun ensureDirSync :: "int \<Rightarrow> path \<Rightarrow> node \<Rightarrow> node option" where
  "ensureDirSync t p (File st) = None"
| "ensureDirSync t [] (Dir st es) = Some (Dir st es)"
| "ensureDirSync t (c # cs) (Dir st es) =
     (case map_of es c of
        None \<Rightarrow> Some (Dir st (es @ [(c, fresh_dirs t cs)]))
      | Some child \<Rightarrow>
          (case ensureDirSync t cs child of
             None \<Rightarrow> None
           | Some child' \<Rightarrow> Some (Dir st (AList.update c child' es))))"

text \<open>
  The write stream the disk storage opens on the final path, after \<open>n\<close> bytes went
  through: a new file is born at time \<open>t\<close>, an existing file is truncated and keeps its
  birth time. \<open>None\<close> is the error of the stream: the parent is not a directory, or the
  path is a directory.
\<close>

definition write_file :: "int \<Rightarrow> path \<Rightarrow> nat \<Rightarrow> node \<Rightarrow> node option" where
  "write_file t p n fs =
     (if p = [] then None
      else (case lookup fs (butlast p) of
              Some (Dir st es) \<Rightarrow>
                (case map_of es (last p) of
                   None \<Rightarrow>
                     Some (modify_at (butlast p)
                             (put_entry (last p) (File \<lparr>birthtime = t, bytes = n\<rparr>)) fs)
                 | Some (File old) \<Rightarrow>
                     Some (modify_at (butlast p)
                             (put_entry (last p) (File (old\<lparr>bytes := n\<rparr>))) fs)
                 | Some (Dir old sub) \<Rightarrow> None)
            | _ \<Rightarrow> None))"

text \<open>
  What every real file system guarantees: the names in a directory are distinct, none is
  empty, \<open>.\<close> or \<open>..\<close>, and none holds a slash.
\<close>

definition plain_name :: "string \<Rightarrow> bool" where
  "plain_name c = (c \<noteq> [] \<and> c \<noteq> ''.'' \<and> c \<noteq> ''..'' \<and> CHR ''/'' \<notin> set c)"

fun wf_node :: "node \<Rightarrow> bool" where
  "wf_node (File st) = True"
| "wf_node (Dir st es) =
     (distinct (map fst es) \<and> list_all (\<lambda>e. plain_name (fst e) \<and> wf_node (snd e)) es)"

section \<open>Requests and responses\<close>

text \<open>
  What a handler reads of its request and its process: the clock (\<open>Date.now()\<close>, also
  the birth time of what the request creates), \<open>__dirname\<close>, the
  \<open>X-Forwarded-Proto\<close> and \<open>Host\<close> headers, the protocol, and whether \<open>NODE_ENV\<close> is
  \<open>production\<close>.
\<close>

record request =
  now :: int
  dirname :: path
  forwarded_proto :: "string option"
  protocol :: string
  host :: "string option"
  production :: bool

record video =
  filename :: string
  uploadTime :: int
  size_bytes :: nat
  videoUrl :: string
  shareUrl :: string

datatype body =
    Error string
  | Uploaded string string string int
  | Videos "video list"
  | Message string
  | Page string

text \<open>\<open>Uncaught\<close>: an exception leaves the handler, and no response is written by it.\<close>

datatype response = Response nat body | Uncaught

fun status :: "response \<Rightarrow> nat option" where
  "status (Response code b) = Some code"
| "status Uncaught = None"

definition getBaseUrl :: "request \<Rightarrow> string" where
  "getBaseUrl req =
     (let proto = (case forwarded_proto req of
                     None \<Rightarrow> protocol req
                   | Some h \<Rightarrow> if h = [] then protocol req else h);
          finalProtocol = (if production req \<and> proto = ''http'' then ''https'' else proto)
      in finalProtocol @ ''://'' @
         (case host req of None \<Rightarrow> ''undefined'' | Some h \<Rightarrow> h) @ ''/nitroshare'')"

section \<open>Partitions\<close>

text \<open>\<open>userEmail.replace(/[^a-zA-Z0-9]/g, '_')\<close>\<close>

definition safeEmail :: "string \<Rightarrow> string" where
  "safeEmail userEmail =
     map (\<lambda>c. if is_upper c \<or> is_lower c \<or> is_digit c then c else CHR ''_'') userEmail"

definition userDir_of :: "request \<Rightarrow> string \<Rightarrow> path" where
  "userDir_of req userEmail = path_join (dirname req) [''uploads'', safeEmail userEmail]"

text \<open>\<open>None\<close>: \<open>ensureDirSync\<close> throws.\<close>

definition getUserDirectory :: "request \<Rightarrow> string \<Rightarrow> node \<Rightarrow> (path \<times> node) option" where
  "getUserDirectory req userEmail fs =
     (case ensureDirSync (now req) (userDir_of req userEmail) fs of
        None \<Rightarrow> None
      | Some fs' \<Rightarrow> Some (userDir_of req userEmail, fs'))"

section \<open>Upload\<close>

datatype multer_code = LIMIT_FILE_SIZE | LIMIT_UNEXPECTED_FILE

datatype upload_error = MulterError multer_code | OtherError string

definition fileSize :: nat where
  "fileSize = 500 * 1024 * 1024"

text \<open>The message of the error the file filter passes to its callback.\<close>

definition filter_message :: "upload_file \<Rightarrow> string" where
  "filter_message file =
     ''Only video files are allowed. Detected type: '' @ mimetype file @
     '', extension: '' @ extname (toLowerCase (originalname file))"

text \<open>
  Modelled from the spec: \<open>upload.single('video')\<close> is the multipart middleware of the
  multer library, which is not part of the source; its callbacks (\<open>fileFilter\<close>,
  \<open>destination\<close>, \<open>filename\<close>) and its limit are the source's. Section 4.4: the
  request carries one file field or none; validation in order, the type first, then the
  streamed byte count against the ceiling; exceeding the ceiling aborts the write and
  the partial file is discarded; on any validation failure no partial file persists.
  The destination callback, which calls \<open>getUserDirectory\<close>, is run for a file that
  passed the filter, and for no other request.
  The result is what the middleware hands to the callback of the route (an error, or
  the stored file name in \<open>req.file\<close>, \<open>None\<close> when the request had no file), and the
  file system after it; \<open>Throws\<close> when \<open>getUserDirectory\<close> throws.
\<close>

definition upload_single ::
  "request \<Rightarrow> string \<Rightarrow> upload_file option \<Rightarrow> node \<Rightarrow>
     (upload_error + string option) attempt \<times> node" where
  "upload_single req userEmail part fs =
     (case part of
        None \<Rightarrow> (Returns (Inr None), fs)
      | Some file \<Rightarrow>
          (if \<not> videoFileFilter file then (Returns (Inl (OtherError (filter_message file))), fs)
           else (case getUserDirectory req userEmail fs of
                   None \<Rightarrow> (Throws, fs)
                 | Some (userDir, fs1) \<Rightarrow>
                     (let finalPath = path_join userDir [storage_filename (now req) file]
                      in (case write_file (now req) finalPath
                                  (min (byte_count file) fileSize) fs1 of
                            None \<Rightarrow> (Returns (Inl (OtherError ''EISDIR'')), fs1)
                          | Some fs2 \<Rightarrow>
                              (if fileSize < byte_count file
                               then (Returns (Inl (MulterError LIMIT_FILE_SIZE)),
                                     (case remove finalPath fs2 of
                                        None \<Rightarrow> fs2
                                      | Some fs3 \<Rightarrow> fs3))
                               else (Returns (Inr (Some (storage_filename (now req) file))),
                                     fs2)))))))"

definition multer_message :: "multer_code \<Rightarrow> string" where
  "multer_message code =
     (case code of
        LIMIT_FILE_SIZE \<Rightarrow> ''File too large''
      | LIMIT_UNEXPECTED_FILE \<Rightarrow> ''Unexpected field'')"

text \<open>The route \<open>POST /nitroshare/api/upload\<close>, after \<open>authenticateToken\<close>.\<close>

definition upload_handler ::
  "request \<Rightarrow> string \<Rightarrow> upload_file option \<Rightarrow> node \<Rightarrow> response \<times> node" where
  "upload_handler req userEmail part fs =
     (case upload_single req userEmail part fs of
        (Throws, fs') \<Rightarrow> (Uncaught, fs')
      | (Returns (Inl (MulterError code)), fs') \<Rightarrow>
          (if code = LIMIT_FILE_SIZE
           then (Response 413 (Error ''File too large. Maximum size is 500MB.''), fs')
           else (Response 400 (Error (multer_message code)), fs'))
      | (Returns (Inl (OtherError msg)), fs') \<Rightarrow> (Response 400 (Error msg), fs')
      | (Returns (Inr None), fs') \<Rightarrow> (Response 400 (Error ''No video file uploaded''), fs')
      | (Returns (Inr (Some name)), fs') \<Rightarrow>
          (Response 200
             (Uploaded name
                (getBaseUrl req @ ''/uploads/'' @ safeEmail userEmail @ ''/'' @ name)
                (getBaseUrl req @ ''/share/'' @ safeEmail userEmail @ ''/'' @ name)
                (now req)),
           fs'))"

section \<open>Catalog\<close>

text \<open>
  \<open>Array.prototype.sort\<close> with a comparator: a stable sort, an element staying before
  the later ones it compares equal to.
\<close>

fun insert_by :: "('a \<Rightarrow> 'a \<Rightarrow> int) \<Rightarrow> 'a \<Rightarrow> 'a list \<Rightarrow> 'a list" where
  "insert_by cmp x [] = [x]"
| "insert_by cmp x (y # ys) =
     (if cmp x y \<le> 0 then x # y # ys else y # insert_by cmp x ys)"

definition js_sort :: "('a \<Rightarrow> 'a \<Rightarrow> int) \<Rightarrow> 'a list \<Rightarrow> 'a list" where
  "js_sort cmp xs = foldr (insert_by cmp) xs []"

text \<open>The filter of the listing; its list of extensions is \<open>allowedExtensions\<close> again.\<close>

definition is_video_name :: "string \<Rightarrow> bool" where
  "is_video_name file = (toLowerCase (extname file) \<in> set allowedExtensions)"

text \<open>The object built for one file; \<open>None\<close> when \<open>fs.statSync\<close> throws.\<close>

definition video_of :: "request \<Rightarrow> string \<Rightarrow> node \<Rightarrow> path \<Rightarrow> string \<Rightarrow> video option" where
  "video_of req userEmail fs userDir file =
     (case lookup fs (path_join userDir [file]) of
        None \<Rightarrow> None
      | Some n \<Rightarrow>
          Some \<lparr>filename = file,
                uploadTime = birthtime (stats_of n),
                size_bytes = bytes (stats_of n),
                videoUrl = getBaseUrl req @ ''/uploads/'' @ safeEmail userEmail @ ''/'' @ file,
                shareUrl = getBaseUrl req @ ''/share/'' @ safeEmail userEmail @ ''/'' @ file\<rparr>)"

definition most_recent_first :: "video \<Rightarrow> video \<Rightarrow> int" where
  "most_recent_first a b = uploadTime b - uploadTime a"

text \<open>The route \<open>GET /nitroshare/api/videos\<close>, after \<open>authenticateToken\<close>.\<close>

definition list_videos :: "request \<Rightarrow> string \<Rightarrow> node \<Rightarrow> response \<times> node" where
  "list_videos req userEmail fs =
     (case getUserDirectory req userEmail fs of
        None \<Rightarrow> (Uncaught, fs)
      | Some (userDir, fs1) \<Rightarrow>
          (case readdir fs1 userDir of
             None \<Rightarrow> (Response 500 (Error ''Unable to read user directory''), fs1)
           | Some files \<Rightarrow>
               (case those (map (video_of req userEmail fs1 userDir)
                                (filter is_video_name files)) of
                  None \<Rightarrow> (Uncaught, fs1)
                | Some videos \<Rightarrow>
                    (Response 200 (Videos (js_sort most_recent_first videos)), fs1))))"

text \<open>
  The summary the catalog is to hold for one entry \<open>(name, node)\<close> of a partition:
  its name, the birth time and size of its node, and the two URLs.
\<close>

definition entry_summary :: "request \<Rightarrow> string \<Rightarrow> string \<times> node \<Rightarrow> video" where
  "entry_summary req userEmail e =
     \<lparr>filename = fst e,
      uploadTime = birthtime (stats_of (snd e)),
      size_bytes = bytes (stats_of (snd e)),
      videoUrl = getBaseUrl req @ ''/uploads/'' @ safeEmail userEmail @ ''/'' @ fst e,
      shareUrl = getBaseUrl req @ ''/share/'' @ safeEmail userEmail @ ''/'' @ fst e\<rparr>"

section \<open>Delete\<close>

text \<open>The route \<open>DELETE /nitroshare/api/videos/:filename\<close>, after \<open>authenticateToken\<close>.\<close>

definition delete_video :: "request \<Rightarrow> string \<Rightarrow> string \<Rightarrow> node \<Rightarrow> response \<times> node" where
  "delete_video req userEmail name fs =
     (case getUserDirectory req userEmail fs of
        None \<Rightarrow> (Uncaught, fs)
      | Some (userDir, fs1) \<Rightarrow>
          (let filePath = path_join userDir [name]
           in if \<not> existsSync fs1 filePath
              then (Response 404 (Error ''Video not found''), fs1)
              else (case remove filePath fs1 of
                      None \<Rightarrow> (Response 500 (Error ''Failed to delete video''), fs1)
                    | Some fs2 \<Rightarrow> (Response 200 (Message ''Video deleted successfully''), fs2))))"

section \<open>The cleanup job\<close>

text \<open>
  The job reads the file system through callbacks; the model runs them in the order of
  the two \<open>forEach\<close> loops. An error of \<open>readdir\<close> or \<open>stat\<close> ends the work on that
  directory or file, an error of \<open>remove\<close> is logged, and the job goes on.
\<close>

definition cleanup_file :: "int \<Rightarrow> path \<Rightarrow> node \<Rightarrow> string \<Rightarrow> node" where
  "cleanup_file oneDayAgo userPath fs file =
     (let filePath = path_join userPath [file]
      in (case lookup fs filePath of
            None \<Rightarrow> fs
          | Some n \<Rightarrow>
              (if birthtime (stats_of n) < oneDayAgo
               then (case remove filePath fs of None \<Rightarrow> fs | Some fs' \<Rightarrow> fs')
               else fs)))"

definition cleanup_dir :: "int \<Rightarrow> path \<Rightarrow> node \<Rightarrow> string \<Rightarrow> node" where
  "cleanup_dir oneDayAgo uploadsDir fs userDir =
     (let userPath = path_join uploadsDir [userDir]
      in (case lookup fs userPath of
            None \<Rightarrow> fs
          | Some n \<Rightarrow>
              (if \<not> isDirectory n then fs
               else (case readdir fs userPath of
                       None \<Rightarrow> fs
                     | Some files \<Rightarrow> foldl (cleanup_file oneDayAgo userPath) fs files))))"

definition cleanup_job :: "request \<Rightarrow> node \<Rightarrow> node" where
  "cleanup_job req fs =
     (let uploadsDir = path_join (dirname req) [''uploads''];
          oneDayAgo = now req - 24 * 60 * 60 * 1000
      in (case readdir fs uploadsDir of
            None \<Rightarrow> fs
          | Some userDirs \<Rightarrow> foldl (cleanup_dir oneDayAgo uploadsDir) fs userDirs))"

section \<open>The share page\<close>

text \<open>
  The template literal of the share page, cut at its interpolations. Each piece is the
  text of the source, line breaks and indentation included; the \<open>og:video\<close> tag
  around its interpolation is a piece of its own.
\<close>

definition page_1 :: string where
  \<open>page_1 =
''
<!DOCTYPE html>
<html lang="en">
<head>
    <meta charset="UTF-8">
    <meta name="viewport" content="width=device-width, initial-scale=1.0">
    <title>Shared Video - ''\<close>

definition page_2 :: string where
  \<open>page_2 =
''</title>
    
    <!-- Open Graph Meta Tags for Facebook, LinkedIn, etc. -->
    <meta property="og:title" content="Shared Video - ''\<close>

definition page_3 :: string where
  \<open>page_3 =
''">
    <meta property="og:description" content="Watch this shared video">
    <meta property="og:type" content="video.other">
    <meta property="og:url" content="''\<close>

definition page_4 :: string where
  \<open>page_4 =
''">
    ''\<close>

definition page_5 :: string where
  \<open>page_5 =
''
    <meta property="og:video:secure_url" content="''\<close>

definition page_6 :: string where
  \<open>page_6 =
''">
    <meta property="og:video:type" content="video/mp4">
    <meta property="og:video:width" content="1280">
    <meta property="og:video:height" content="720">
    
    <!-- Twitter Card Meta Tags -->
    <meta name="twitter:card" content="player">
    <meta name="twitter:title" content="Shared Video - ''\<close>

definition page_7 :: string where
  \<open>page_7 =
''">
    <meta name="twitter:description" content="Watch this shared video">
    <meta name="twitter:player" content="''\<close>

definition page_8 :: string where
  \<open>page_8 =
''">
    <meta name="twitter:player:width" content="1280">
    <meta name="twitter:player:height" content="720">
    
    <!-- Discord and other platforms -->
    <meta name="theme-color" content="#7289DA">
    
    <style>
        body {
            margin: 0;
            padding: 20px;
            font-family: Arial, sans-serif;
            background-color: #f0f0f0;
        }
        .container {
            max-width: 1200px;
            margin: 0 auto;
            background: white;
            border-radius: 8px;
            padding: 20px;
            box-shadow: 0 2px 10px rgba(0,0,0,0.1);
        }
        .video-container {
            position: relative;
            width: 100%;
            padding-bottom: 56.25%; /* 16:9 aspect ratio */
            height: 0;
            margin-bottom: 20px;
        }
        video {
            position: absolute;
            top: 0;
            left: 0;
            width: 100%;
            height: 100%;
            border-radius: 4px;
        }
        .info {
            color: #666;
            font-size: 14px;
        }
        .share-buttons {
            margin-top: 20px;
        }
        .share-button {
            display: inline-block;
            margin-right: 10px;
            padding: 8px 16px;
            background: #007bff;
            color: white;
            text-decoration: none;
            border-radius: 4px;
            font-size: 14px;
        }
        .share-button:hover {
            background: #0056b3;
        }
        @media (max-width: 768px) {
            body {
                padding: 10px;
            }
            .container {
                padding: 15px;
            }
        }
    </style>
</head>
<body>
    <div class="container">
        <h1>Shared Video</h1>
        <div class="video-container">
            <video controls preload="metadata">
                <source src="''\<close>

definition page_9 :: string where
  \<open>page_9 =
''" type="video/mp4">
                Your browser does not support the video tag.
            </video>
        </div>
        <div class="info">
            <p><strong>Filename:</strong> ''\<close>

definition page_10 :: string where
  \<open>page_10 =
''</p>
            <p><strong>Direct Link:</strong> <a href="''\<close>

definition page_11 :: string where
  \<open>page_11 =
''" target="_blank">''\<close>

definition page_12 :: string where
  \<open>page_12 =
''</a></p>
        </div>
        <div class="share-buttons">
            <button onclick="copyToClipboard('' @ [CHR 0x27]\<close>

definition page_13 :: string where
  \<open>page_13 =
[CHR 0x27] @ '')" class="share-button">Copy Link</button>
        </div>
    </div>
    
    <script>
        function copyToClipboard(text) {
            navigator.clipboard.writeText(text).then(function() {
                alert('Link copied to clipboard!');
            });
        }
    </script>
</body>
</html>''\<close>

definition og_video_open :: string where
  \<open>og_video_open = ''<meta property="og:video" content="''\<close>

definition og_video_close :: string where
  \<open>og_video_close = ''">''\<close>

text \<open>The page for a file name, its direct URL and its share URL.\<close>

definition share_page :: "string \<Rightarrow> string \<Rightarrow> string \<Rightarrow> string" where
  "share_page name video share =
     page_1 @ name @ page_2 @ name @
     page_3 @ share @ page_4 @ og_video_open @
     video @ og_video_close @ page_5 @ video @
     page_6 @ name @ page_7 @ share @
     page_8 @ video @ page_9 @ name @
     page_10 @ video @ page_11 @ video @
     page_12 @ share @ page_13"


text \<open>The route \<open>GET /nitroshare/share/:userEmail/:filename\<close>; it has no authentication.\<close>

definition share_handler :: "request \<Rightarrow> string \<Rightarrow> string \<Rightarrow> node \<Rightarrow> response" where
  "share_handler req userEmail name fs =
     (let filePath = path_join (dirname req) [''uploads'', userEmail, name]
      in if \<not> existsSync fs filePath then Response 404 (Page ''Video not found'')
         else Response 200
                (Page (share_page name
                         (getBaseUrl req @ ''/uploads/'' @ userEmail @ ''/'' @ name)
                         (getBaseUrl req @ ''/share/'' @ userEmail @ ''/'' @ name))))"

section \<open>Observations of the file system\<close>

text \<open>The names listed in a directory, none when the directory does not exist.\<close>

definition listing :: "node \<Rightarrow> path \<Rightarrow> string list" where
  "listing fs p = (case readdir fs p of None \<Rightarrow> [] | Some files \<Rightarrow> files)"

text \<open>The partition directory of a principal exists in a file system.\<close>

definition partition_exists :: "node \<Rightarrow> request \<Rightarrow> string \<Rightarrow> bool" where
  "partition_exists fs req userEmail =
     (case lookup fs (userDir_of req userEmail) of
        Some (Dir st es) \<Rightarrow> True
      | _ \<Rightarrow> False)"

section \<open>Example states\<close>

text \<open>A request, a file system and files, for the closed examples below.\<close>

definition example_req :: request where
  "example_req =
     \<lparr>now = 1700000000123,
      dirname = [''opt'', ''nitroshare''],
      forwarded_proto = Some ''https'',
      protocol = ''http'',
      host = Some ''example.com'',
      production = True\<rparr>"

definition example_fs :: node where
  "example_fs =
     Dir \<lparr>birthtime = 0, bytes = 4096\<rparr>
       [(''opt'', Dir \<lparr>birthtime = 0, bytes = 4096\<rparr>
          [(''nitroshare'', Dir \<lparr>birthtime = 0, bytes = 4096\<rparr>
             [(''server.js'', File \<lparr>birthtime = 1000, bytes = 15854\<rparr>),
              (''uploads'', Dir \<lparr>birthtime = 2000, bytes = 4096\<rparr>
                 [(''alice_example_com'', Dir \<lparr>birthtime = 3000, bytes = 4096\<rparr>
                     [(''old.mp4'', File \<lparr>birthtime = 1699900000000, bytes = 10\<rparr>),
                      (''new.MP4'', File \<lparr>birthtime = 1699999000000, bytes = 20\<rparr>),
                      (''notes.txt'', File \<lparr>birthtime = 1699999100000, bytes = 5\<rparr>)]),
                  (''bob_example_com'', Dir \<lparr>birthtime = 4000, bytes = 4096\<rparr>
                     [(''clip.mp4'', File \<lparr>birthtime = 1699999500000, bytes = 30\<rparr>)])])])])]"

definition text_file :: upload_file where
  "text_file = \<lparr>originalname = ''notes.txt'', mimetype = ''text/plain'', byte_count = 5\<rparr>"

definition alice_dir :: path where
  "alice_dir = [''opt'', ''nitroshare'', ''uploads'', ''alice_example_com'']"

definition exe_file :: upload_file where
  "exe_file = \<lparr>originalname = ''clip.exe'', mimetype = ''video/mp4'', byte_count = 3\<rparr>"

definition clip_a :: upload_file where
  "clip_a = \<lparr>originalname = ''a.mp4'', mimetype = ''video/mp4'', byte_count = 3\<rparr>"

definition clip_b :: upload_file where
  "clip_b = \<lparr>originalname = ''b.mp4'', mimetype = ''video/mp4'', byte_count = 7\<rparr>"

definition later_req :: request where
  "later_req = example_req\<lparr>now := 1700000000456\<rparr>"

definition exe_upload :: "response \<times> node" where
  "exe_upload = upload_handler example_req ''alice@example.com'' (Some exe_file) example_fs"

definition first_upload :: "response \<times> node" where
  "first_upload = upload_handler example_req ''alice@example.com'' (Some clip_a) example_fs"

definition second_upload :: "response \<times> node" where
  "second_upload =
     upload_handler example_req ''alice@example.com'' (Some clip_b) (snd first_upload)"

definition later_upload :: "response \<times> node" where
  "later_upload =
     upload_handler later_req ''alice@example.com'' (Some clip_b) (snd first_upload)"

definition big_file :: upload_file where
  "big_file = \<lparr>originalname = ''big.mp4'', mimetype = ''video/mp4'', byte_count = 600 * 1024 * 1024\<rparr>"

definition bob_clip :: path where
  "bob_clip = [''opt'', ''nitroshare'', ''uploads'', ''bob_example_com'', ''clip.mp4'']"

definition traversal_delete :: "response \<times> node" where
  "traversal_delete =
     delete_video example_req ''alice@example.com'' ''../bob_example_com/clip.mp4'' example_fs"

section \<open>The sweep, directory by directory\<close>

text \<open>
  The sweep as section 4.6 words it: in every partition (a directory in \<open>uploads\<close>),
  every entry whose birth time is before \<open>oneDayAgo\<close> goes, every other entry stays.
\<close>

definition expired :: "int \<Rightarrow> node \<Rightarrow> bool" where
  "expired oneDayAgo n = (birthtime (stats_of n) < oneDayAgo)"

fun sweep_partition :: "int \<Rightarrow> node \<Rightarrow> node" where
  "sweep_partition oneDayAgo (File st) = File st"
| "sweep_partition oneDayAgo (Dir st es) =
     Dir st (filter (\<lambda>e. \<not> expired oneDayAgo (snd e)) es)"

fun sweep_uploads :: "int \<Rightarrow> node \<Rightarrow> node" where
  "sweep_uploads oneDayAgo (File st) = File st"
| "sweep_uploads oneDayAgo (Dir st ps) =
     Dir st (map (\<lambda>p. (fst p, sweep_partition oneDayAgo (snd p))) ps)"

text \<open>One step of each loop of the job, on the node of the directory the loop works in.\<close>

fun file_step :: "int \<Rightarrow> node \<Rightarrow> string \<Rightarrow> node" where
  "file_step oneDayAgo (File st) f = File st"
| "file_step oneDayAgo (Dir st es) f =
     (case map_of es f of
        None \<Rightarrow> Dir st es
      | Some n \<Rightarrow> if expired oneDayAgo n then Dir st (AList.delete f es) else Dir st es)"

fun dir_step :: "int \<Rightarrow> node \<Rightarrow> string \<Rightarrow> node" where
  "dir_step oneDayAgo (File st) u = File st"
| "dir_step oneDayAgo (Dir st ps) u =
     (case map_of ps u of
        None \<Rightarrow> Dir st ps
      | Some d \<Rightarrow> Dir st (AList.update u (sweep_partition oneDayAgo d) ps))"

section \<open>Properties of the authentication middleware\<close>

lemma verify_token_fails:
  "both_paths_fail env token \<Longrightarrow> verify_token env token = None"
  by (auto simp: both_paths_fail_def verify_token_def split: attempt.splits)

lemma bearer_token_example: "bearer_token (Some ''Bearer expired'') = Some ''expired''"
  by (simp add: bearer_token_def)

lemma rejecting_env_fails: "both_paths_fail rejecting_env t"
  by (simp add: both_paths_fail_def rejecting_env_def)

text \<open>
  Claim C1, as stated, fails: a request whose bearer token fails both verification paths
  is answered 403, and a request without a token 401, so the two statuses differ.
\<close>

theorem C1_counterexample:
  "both_paths_fail rejecting_env ''expired'' \<and>
   authenticateToken rejecting_env (Some ''Bearer expired'') = SendStatus 403 \<and>
   authenticateToken rejecting_env None = SendStatus 401 \<and>
   authenticateToken rejecting_env (Some ''Bearer expired'') \<noteq> SendStatus 401"
  by (simp add: rejecting_env_fails authenticateToken_def bearer_token_example
      verify_token_fails) (simp add: bearer_token_def)

text \<open>
  Claim C1, amended: for every request carrying a bearer token for which both
  verification paths fail, the middleware refuses the request with status 403, which is
  not the status of a request carrying no token at all: that request is refused with
  status 401.
\<close>

theorem C1_both_paths_fail_403:
  "(bearer_token authHeader = Some token \<and> both_paths_fail env token \<longrightarrow>
      authenticateToken env authHeader = SendStatus 403 \<and>
      authenticateToken env authHeader \<noteq> authenticateToken env None) \<and>
   (bearer_token authHeader = None \<longrightarrow> authenticateToken env authHeader = SendStatus 401)"
proof -
  have "authenticateToken env None = SendStatus 401"
    by (simp add: authenticateToken_def bearer_token_def)
  then show ?thesis
    by (simp add: authenticateToken_def verify_token_fails)
qed

theorem C1_both_paths_fail_403_witness:
  "bearer_token (Some ''Bearer expired'') = Some ''expired'' \<and>
   both_paths_fail rejecting_env ''expired'' \<and>
   authenticateToken rejecting_env (Some ''Bearer expired'') = SendStatus 403 \<and>
   authenticateToken rejecting_env (Some ''Bearer expired'') \<noteq>
     authenticateToken rejecting_env None"
  using C1_both_paths_fail_403 [of "Some ''Bearer expired''" "''expired''" rejecting_env]
  by (auto simp: bearer_token_example rejecting_env_fails)

section \<open>Paths and the file system: lemmas\<close>

lemma split_no_sep: "sep \<notin> set s \<Longrightarrow> split sep s = [s]"
  by (induction s) auto

lemma no_slash_last: "c \<noteq> [] \<Longrightarrow> CHR ''/'' \<notin> set c \<Longrightarrow> last c \<noteq> CHR ''/''"
  by (metis last_in_set)

lemma plain_name_no_slash: "plain_name c \<Longrightarrow> \<not> ends_with_slash (xs @ [c])"
  by (simp add: ends_with_slash_def plain_name_def no_slash_last)

lemma path_join_plain: "plain_name c \<Longrightarrow> path_join p [c] = p @ [c]"
  using plain_name_no_slash [of c "[]"]
  by (simp add: path_join_def plain_name_def split_no_sep join_step_def)

lemma foldl_join_plain:
  "list_all plain_name cs \<Longrightarrow>
     foldl join_step p (concat (map (split CHR ''/'') cs)) = p @ cs"
  by (induction cs arbitrary: p) (simp_all add: plain_name_def split_no_sep join_step_def)

lemma ends_with_slash_plain: "list_all plain_name cs \<Longrightarrow> \<not> ends_with_slash cs"
proof (cases cs rule: rev_cases)
  case Nil
  then show ?thesis by (simp add: ends_with_slash_def)
next
  case (snoc xs c)
  assume "list_all plain_name cs"
  with snoc have "plain_name c" by simp
  then show ?thesis unfolding snoc by (rule plain_name_no_slash)
qed

lemma path_join_plain_all: "list_all plain_name cs \<Longrightarrow> path_join p cs = p @ cs"
  by (simp add: path_join_def foldl_join_plain ends_with_slash_plain)

lemma resolve_plain: "c \<noteq> [] \<Longrightarrow> resolve fs (p @ [c]) = lookup fs (p @ [c])"
  by (simp add: resolve_def)

lemma exists_plain:
  "plain_name c \<Longrightarrow> existsSync fs (p @ [c]) \<longleftrightarrow> lookup fs (p @ [c]) \<noteq> None"
  by (simp add: existsSync_def resolve_def plain_name_def)

lemma lookup_append:
  "lookup n (p @ q) = (case lookup n p of None \<Rightarrow> None | Some d \<Rightarrow> lookup d q)"
proof (induction p arbitrary: n)
  case Nil
  then show ?case by simp
next
  case (Cons c cs)
  then show ?case by (cases n) (auto split: option.splits)
qed

lemma lookup_modify_at:
  "lookup (modify_at p f n) (p @ q) =
     (case lookup n p of None \<Rightarrow> None | Some d \<Rightarrow> lookup (f d) q)"
proof (induction p arbitrary: n)
  case Nil
  then show ?case by simp
next
  case (Cons c cs)
  then show ?case
    by (cases n) (auto simp: AList.update_conv' split: option.splits)
qed

lemma modify_at_missing: "lookup n p = None \<Longrightarrow> modify_at p f n = n"
proof (induction p arbitrary: n)
  case Nil
  then show ?case by simp
next
  case (Cons c cs)
  then show ?case
    by (cases n) (auto simp: AList.update_triv split: option.splits)
qed

lemma modify_at_cong:
  "lookup n p = Some d \<Longrightarrow> f d = g d \<Longrightarrow> modify_at p f n = modify_at p g n"
proof (induction p arbitrary: n)
  case Nil
  then show ?case by simp
next
  case (Cons c cs)
  then show ?case
    by (cases n) (auto split: option.splits)
qed

lemma modify_at_same: "lookup n p = Some d \<Longrightarrow> f d = d \<Longrightarrow> modify_at p f n = n"
proof (induction p arbitrary: n)
  case Nil
  then show ?case by simp
next
  case (Cons c cs)
  then show ?case
    by (cases n) (auto simp: AList.update_triv split: option.splits)
qed

lemma modify_at_compose: "modify_at p f (modify_at p g n) = modify_at p (\<lambda>d. f (g d)) n"
proof (induction p arbitrary: n)
  case Nil
  then show ?case by simp
next
  case (Cons c cs)
  then show ?case
    by (cases n) (auto simp: AList.update_conv' split: option.splits)
qed

lemma modify_at_append: "modify_at (p @ q) f n = modify_at p (modify_at q f) n"
proof (induction p arbitrary: n)
  case Nil
  then show ?case by simp
next
  case (Cons c cs)
  then show ?case
    by (cases n) (auto split: option.splits)
qed

lemma lookup_fresh_dirs: "lookup (fresh_dirs t p) p = Some (Dir \<lparr>birthtime = t, bytes = 0\<rparr> [])"
  by (induction p) auto

lemma map_of_snoc_new: "map_of es c = None \<Longrightarrow> map_of (es @ [(c, v)]) c = Some v"
  by (simp add: map_add_def)

text \<open>After a successful ensureDirSync the path is a directory.\<close>
lemma ensureDirSync_isDir:
  "ensureDirSync t p fs = Some fs' \<Longrightarrow> \<exists>st es. lookup fs' p = Some (Dir st es)"
proof (induction t p fs arbitrary: fs' rule: ensureDirSync.induct)
  case (1 t p st)
  then show ?case by simp
next
  case (2 t st es)
  then show ?case by auto
next
  case (3 t c cs st es)
  show ?case
  proof (cases "map_of es c")
    case None
    with 3 show ?thesis by (auto simp: map_add_def lookup_fresh_dirs)
  next
    case (Some child)
    with 3 show ?thesis
      by (auto simp: AList.update_conv' split: option.splits)
  qed
qed

lemma ensureDirSync_existing:
  "lookup fs p = Some (Dir st es) \<Longrightarrow> ensureDirSync t p fs = Some fs"
proof (induction t p fs rule: ensureDirSync.induct)
  case (1 t p st)
  then show ?case by (cases p) auto
next
  case (2 t st es)
  then show ?case by simp
next
  case (3 t c cs st' es')
  then show ?case
    by (auto simp: AList.update_triv split: option.splits)
qed

lemma ensureDirSync_fresh:
  "lookup fs p = None \<Longrightarrow> ensureDirSync t p fs = Some fs' \<Longrightarrow>
   lookup fs' p = Some (Dir \<lparr>birthtime = t, bytes = 0\<rparr> [])"
proof (induction t p fs arbitrary: fs' rule: ensureDirSync.induct)
  case (1 t p st)
  then show ?case by simp
next
  case (2 t st es)
  then show ?case by simp
next
  case (3 t c cs st es)
  show ?case
  proof (cases "map_of es c")
    case None
    with 3 show ?thesis by (auto simp: map_add_def lookup_fresh_dirs)
  next
    case (Some child)
    with 3 show ?thesis
      by (auto simp: AList.update_conv' split: option.splits)
  qed
qed

lemma wf_fresh_dirs: "list_all plain_name p \<Longrightarrow> wf_node (fresh_dirs t p)"
  by (induction p) auto

lemma list_all_update:
  "list_all P es \<Longrightarrow> P (c, v) \<Longrightarrow> list_all P (AList.update c v es)"
  by (induction es) auto

lemma map_of_None_notin: "map_of es c = None \<Longrightarrow> c \<notin> fst ` set es"
  by (simp add: map_of_eq_None_iff)

lemma ensureDirSync_wf:
  "wf_node fs \<Longrightarrow> list_all plain_name p \<Longrightarrow> ensureDirSync t p fs = Some fs' \<Longrightarrow> wf_node fs'"
proof (induction t p fs arbitrary: fs' rule: ensureDirSync.induct)
  case (1 t p st)
  then show ?case by simp
next
  case (2 t st es)
  then show ?case by auto
next
  case (3 t c cs st es)
  show ?case
  proof (cases "map_of es c")
    case None
    with 3 show ?thesis by (auto simp: wf_fresh_dirs map_of_eq_None_iff)
  next
    case (Some child)
    then have mem: "(c, child) \<in> set es" by (rule map_of_SomeD)
    with 3 have wfc: "wf_node child" by (auto simp: list_all_iff)
    from 3 Some obtain child' where c': "ensureDirSync t cs child = Some child'"
      and fs': "fs' = Dir st (AList.update c child' es)"
      by (auto split: option.splits)
    from 3(1)[OF Some wfc _ c'] 3(3) have "wf_node child'" by simp
    with 3 fs' show ?thesis
      by (auto simp: AList.distinct_update intro!: list_all_update)
  qed
qed

lemma wf_lookup: "wf_node n \<Longrightarrow> lookup n p = Some d \<Longrightarrow> wf_node d"
proof (induction p arbitrary: n)
  case Nil
  then show ?case by simp
next
  case (Cons c cs)
  then show ?case
    by (cases n) (auto simp: list_all_iff split: option.splits dest!: map_of_SomeD)
qed

lemma safeEmail_no_slash: "CHR ''/'' \<notin> set (safeEmail e)"
  by (auto simp: safeEmail_def is_upper_def is_lower_def is_digit_def)

lemma safeEmail_no_dot: "CHR ''.'' \<notin> set (safeEmail e)"
  by (auto simp: safeEmail_def is_upper_def is_lower_def is_digit_def)

lemma safeEmail_plain: "safeEmail e \<noteq> [] \<Longrightarrow> plain_name (safeEmail e)"
  using safeEmail_no_slash [of e] safeEmail_no_dot [of e]
  by (auto simp: plain_name_def)

lemma userDir_of_eq:
  "userDir_of req e =
     dirname req @ [''uploads''] @ (if safeEmail e = [] then [] else [safeEmail e])"
proof -
  have u: "path_join (dirname req) [''uploads''] = dirname req @ [''uploads'']"
    by (rule path_join_plain) (simp add: plain_name_def)
  show ?thesis
  proof (cases "safeEmail e = []")
    case True
    then show ?thesis
      by (simp add: userDir_of_def path_join_def join_step_def ends_with_slash_def)
  next
    case False
    then have pl: "plain_name (safeEmail e)" by (rule safeEmail_plain)
    have "list_all plain_name [''uploads'', safeEmail e]"
      using pl by (simp add: plain_name_def)
    then have "userDir_of req e = dirname req @ [''uploads'', safeEmail e]"
      unfolding userDir_of_def by (rule path_join_plain_all)
    then show ?thesis using False by simp
  qed
qed

lemma userDir_of_plain:
  "list_all plain_name (dirname req) \<Longrightarrow> list_all plain_name (userDir_of req e)"
proof -
  have "plain_name ''uploads''" by (simp add: plain_name_def)
  then show "list_all plain_name (dirname req) \<Longrightarrow> list_all plain_name (userDir_of req e)"
    by (simp add: userDir_of_eq safeEmail_plain)
qed

section \<open>Upload validation and the share page\<close>

lemma allowedMimeTypes_video:
  "m \<in> set allowedMimeTypes \<Longrightarrow> startsWith m ''video/''"
  by (auto simp: allowedMimeTypes_def)

lemma text_file_rejected: "\<not> videoFileFilter text_file"
  by (simp add: videoFileFilter_def hasValidExtension_def hasValidMimeType_def text_file_def
      extname_def basename_of_def toLowerCase_def lower_char_def is_upper_def
      allowedExtensions_def allowedMimeTypes_def)

text \<open>
  Claim C2: the file filter accepts an upload exactly when the extension of the
  lower-cased original file name is in the allow-list, or the declared content type starts
  with \<open>video/\<close>, or the content type is \<open>application/octet-stream\<close> and the
  extension is in the allow-list. When it does not accept, the upload is answered 400
  with the message of the filter, and the file system is left as it was: no file is
  written.
\<close>

theorem C2_file_filter:
  "(videoFileFilter file \<longleftrightarrow>
      extname (toLowerCase (originalname file)) \<in> set allowedExtensions \<or>
      startsWith (mimetype file) ''video/'' \<or>
      (mimetype file = ''application/octet-stream'' \<and>
       extname (toLowerCase (originalname file)) \<in> set allowedExtensions)) \<and>
   (\<not> videoFileFilter file \<longrightarrow>
      upload_handler req userEmail (Some file) fs =
        (Response 400 (Error (filter_message file)), fs))"
proof
  show "videoFileFilter file \<longleftrightarrow>
      extname (toLowerCase (originalname file)) \<in> set allowedExtensions \<or>
      startsWith (mimetype file) ''video/'' \<or>
      (mimetype file = ''application/octet-stream'' \<and>
       extname (toLowerCase (originalname file)) \<in> set allowedExtensions)"
    using allowedMimeTypes_video [of "mimetype file"]
    by (auto simp: videoFileFilter_def hasValidExtension_def hasValidMimeType_def)
  show "\<not> videoFileFilter file \<longrightarrow>
      upload_handler req userEmail (Some file) fs =
        (Response 400 (Error (filter_message file)), fs)"
    by (simp add: upload_handler_def upload_single_def)
qed

theorem C2_file_filter_witness:
  "\<not> videoFileFilter text_file \<and>
   upload_handler example_req ''alice@example.com'' (Some text_file) example_fs =
     (Response 400 (Error (filter_message text_file)), example_fs)"
  using C2_file_filter [of text_file example_req "''alice@example.com''" example_fs]
    text_file_rejected
  by simp

lemma exists_entry:
  "c \<noteq> [] \<Longrightarrow> existsSync fs (p @ [c]) \<longleftrightarrow> c \<in> set (listing fs p)"
proof -
  assume c: "c \<noteq> []"
  have "lookup fs (p @ [c]) \<noteq> None \<longleftrightarrow> c \<in> set (listing fs p)"
  proof (cases "lookup fs p")
    case None
    then show ?thesis by (simp add: lookup_append listing_def readdir_def)
  next
    case (Some d)
    then show ?thesis
      by (cases d)
        (auto simp: lookup_append listing_def readdir_def map_of_eq_None_iff
          split: option.splits dest: map_of_SomeD intro: rev_image_eqI)
  qed
  with c show ?thesis by (simp add: existsSync_def resolve_plain)
qed

lemma example_share_dot:
  "path_join (dirname example_req) [''uploads'', ''alice_example_com'', ''.''] = alice_dir"
  by (simp add: path_join_def join_step_def ends_with_slash_def example_req_def alice_dir_def)

lemma example_alice_listing:
  "listing example_fs alice_dir = [''old.mp4'', ''new.MP4'', ''notes.txt'']"
  by (simp add: listing_def readdir_def alice_dir_def example_fs_def)

lemma example_alice_exists: "existsSync example_fs alice_dir"
  by (simp add: existsSync_def resolve_def alice_dir_def example_fs_def)

text \<open>
  A file name that ends in a slash: the path keeps the slash, a regular file is not
  found through it, and the share page is answered 404.
\<close>

lemma example_trailing_slash:
  "path_join (dirname example_req) [''uploads'', ''alice_example_com'', ''old.mp4/''] =
     alice_dir @ [''old.mp4'', []] \<and>
   status (share_handler example_req ''alice_example_com'' ''old.mp4/'' example_fs) = Some 404"
proof -
  have j: "path_join (dirname example_req) [''uploads'', ''alice_example_com'', ''old.mp4/''] =
     alice_dir @ [''old.mp4'', []]"
    by (simp add: path_join_def join_step_def ends_with_slash_def example_req_def alice_dir_def)
  have "\<not> existsSync example_fs (alice_dir @ [''old.mp4'', []])"
    by (simp add: existsSync_def resolve_def alice_dir_def example_fs_def)
  with j show ?thesis by (simp add: share_handler_def)
qed

text \<open>
  Claim C8 fails on the code: the handler joins the two route parameters onto
  \<open>uploads\<close> as they come and asks only whether something exists at the resulting
  path. For the partition key \<open>alice_example_com\<close> and the file name \<open>.\<close> the path
  is the partition directory itself: the partition holds no entry of that name, so the
  referenced asset does not exist, and yet the answer is 200 with a page, not 404.
\<close>

theorem C8_share_page_without_asset:
  "path_join (dirname example_req) [''uploads'', ''alice_example_com'', ''.''] = alice_dir \<and>
   ''.'' \<notin> set (listing example_fs alice_dir) \<and>
   status (share_handler example_req ''alice_example_com'' ''.'' example_fs) = Some 200"
  by (simp add: example_share_dot example_alice_listing example_alice_exists share_handler_def)

text \<open>
  The share page for plain names. When the partition key and the file name are plain
  (not empty, not \<open>.\<close> or \<open>..\<close>, without a slash), the page is answered 404 exactly
  when the directory of that partition under \<open>uploads\<close> lists no entry of that name;
  when it lists one, the answer is 200 with a document that holds the \<open>og:video\<close>
  meta tag whose content is the base URL followed by \<open>/uploads/\<close>, the partition key,
  a slash and the file name.
\<close>

theorem share_page_plain_name:
  assumes k: "plain_name userEmail" and f: "plain_name name"
  shows
  "(status (share_handler req userEmail name fs) = Some 404 \<longleftrightarrow>
      name \<notin> set (listing fs (dirname req @ [''uploads'', userEmail]))) \<and>
   (name \<in> set (listing fs (dirname req @ [''uploads'', userEmail])) \<longrightarrow>
      (\<exists>pre post.
         share_handler req userEmail name fs =
           Response 200
             (Page (pre @ og_video_open @
                    (getBaseUrl req @ ''/uploads/'' @ userEmail @ ''/'' @ name) @
                    og_video_close @ post))))"
proof -
  let ?U = "dirname req @ [''uploads'', userEmail]"
  let ?video = "getBaseUrl req @ ''/uploads/'' @ userEmail @ ''/'' @ name"
  let ?share = "getBaseUrl req @ ''/share/'' @ userEmail @ ''/'' @ name"
  let ?pre = "page_1 @ name @ page_2 @ name @ page_3 @ ?share @ page_4"
  let ?post = "page_5 @ ?video @ page_6 @ name @ page_7 @ ?share @ page_8 @ ?video @
               page_9 @ name @ page_10 @ ?video @ page_11 @ ?video @ page_12 @ ?share @
               page_13"
  have "list_all plain_name [''uploads'', userEmail, name]"
    using k f by (simp add: plain_name_def)
  then have "path_join (dirname req) [''uploads'', userEmail, name] =
               dirname req @ [''uploads'', userEmail, name]"
    by (rule path_join_plain_all)
  then have j: "path_join (dirname req) [''uploads'', userEmail, name] = ?U @ [name]"
    by simp
  have n: "name \<noteq> []" using f by (simp add: plain_name_def)
  have e: "existsSync fs (?U @ [name]) \<longleftrightarrow> name \<in> set (listing fs ?U)"
    using n by (rule exists_entry)
  have nf: "status (share_handler req userEmail name fs) = Some 404 \<longleftrightarrow>
      name \<notin> set (listing fs ?U)"
    using e by (simp add: share_handler_def j del: append.simps append_assoc)
  have "name \<in> set (listing fs ?U) \<Longrightarrow>
      share_handler req userEmail name fs =
        Response 200 (Page (?pre @ og_video_open @ ?video @ og_video_close @ ?post))"
    using e by (simp add: share_handler_def share_page_def j del: append.simps append_assoc)
  then have "name \<in> set (listing fs ?U) \<longrightarrow>
      (\<exists>pre post.
         share_handler req userEmail name fs =
           Response 200 (Page (pre @ og_video_open @ ?video @ og_video_close @ post)))"
    by blast
  with nf show ?thesis by simp
qed

theorem share_page_plain_name_witness:
  "plain_name ''alice_example_com'' \<and> plain_name ''old.mp4'' \<and>
   ''old.mp4'' \<in> set (listing example_fs (dirname example_req @ [''uploads'', ''alice_example_com''])) \<and>
   status (share_handler example_req ''alice_example_com'' ''old.mp4'' example_fs) \<noteq> Some 404"
proof -
  have d: "dirname example_req @ [''uploads'', ''alice_example_com''] = alice_dir"
    by (simp add: example_req_def alice_dir_def)
  have p: "plain_name ''alice_example_com''" "plain_name ''old.mp4''"
    by (simp_all add: plain_name_def)
  show ?thesis
    using share_page_plain_name [OF p, of example_req example_fs]
    by (simp add: d example_alice_listing p)
qed

section \<open>The catalog\<close>

lemma mset_insert_by: "mset (insert_by cmp x xs) = add_mset x (mset xs)"
  by (induction xs) auto

lemma mset_js_sort: "mset (js_sort cmp xs) = mset xs"
  by (induction xs) (auto simp: js_sort_def mset_insert_by)

lemma set_insert_by: "set (insert_by cmp x xs) = insert x (set xs)"
  by (induction xs) auto

lemma sorted_insert_by_recent:
  "sorted_wrt (\<lambda>a b. uploadTime b \<le> uploadTime a) xs \<Longrightarrow>
   sorted_wrt (\<lambda>a b. uploadTime b \<le> uploadTime a) (insert_by most_recent_first x xs)"
  by (induction xs) (auto simp: set_insert_by most_recent_first_def)

lemma sorted_js_sort_recent:
  "sorted_wrt (\<lambda>a b. uploadTime b \<le> uploadTime a) (js_sort most_recent_first xs)"
proof (induction xs)
  case Nil
  then show ?case by (simp add: js_sort_def)
next
  case (Cons x xs)
  then show ?case
    using sorted_insert_by_recent [of "js_sort most_recent_first xs" x]
    by (simp add: js_sort_def)
qed

lemma those_map_Some: "(\<And>x. x \<in> set xs \<Longrightarrow> f x = Some (g x)) \<Longrightarrow> those (map f xs) = Some (map g xs)"
  by (induction xs) auto

lemma ensureDirSync_file:
  "lookup fs p = Some (File st) \<Longrightarrow> ensureDirSync t p fs = None"
proof (induction t p fs rule: ensureDirSync.induct)
  case (1 t p st)
  then show ?case by simp
next
  case (2 t st es)
  then show ?case by simp
next
  case (3 t c cs st' es')
  then show ?case by (auto split: option.splits)
qed

lemma lookup_child:
  "lookup fs p = Some (Dir st es) \<Longrightarrow> lookup fs (p @ [c]) = map_of es c"
  by (simp add: lookup_append split: option.splits)

lemma getUserDirectory_Some:
  "getUserDirectory req e fs = Some (d, fs1) \<longleftrightarrow>
     d = userDir_of req e \<and> ensureDirSync (now req) (userDir_of req e) fs = Some fs1"
  by (auto simp: getUserDirectory_def split: option.splits)

lemma video_of_entry:
  assumes dir: "lookup fs userDir = Some (Dir st es)"
    and wf: "wf_node (Dir st es)"
    and mem: "e \<in> set es"
  shows "video_of req userEmail fs userDir (fst e) = Some (entry_summary req userEmail e)"
proof -
  from wf mem have plain: "plain_name (fst e)" and dist: "distinct (map fst es)"
    by (auto simp: list_all_iff)
  from dist mem have "map_of es (fst e) = Some (snd e)" by simp
  with dir have "lookup fs (path_join userDir [fst e]) = Some (snd e)"
    by (simp add: path_join_plain [OF plain] lookup_child)
  then show ?thesis by (simp add: video_of_def entry_summary_def)
qed

lemma list_videos_listing:
  assumes dir: "lookup fs1 userDir = Some (Dir st es)"
    and wf: "wf_node (Dir st es)"
    and g: "getUserDirectory req userEmail fs = Some (userDir, fs1)"
  shows "list_videos req userEmail fs =
     (Response 200
        (Videos (js_sort most_recent_first
           (map (entry_summary req userEmail) (filter (\<lambda>e. is_video_name (fst e)) es)))),
      fs1)"
proof -
  have rd: "readdir fs1 userDir = Some (map fst es)"
    using dir by (simp add: readdir_def)
  have fm: "filter is_video_name (map fst es) = map fst (filter (\<lambda>e. is_video_name (fst e)) es)"
    by (simp add: filter_map o_def)
  have "those (map (\<lambda>e. video_of req userEmail fs1 userDir (fst e))
                 (filter (\<lambda>e. is_video_name (fst e)) es)) =
        Some (map (entry_summary req userEmail) (filter (\<lambda>e. is_video_name (fst e)) es))"
    by (rule those_map_Some) (simp add: video_of_entry [OF dir wf])
  then have "those (map (video_of req userEmail fs1 userDir) (filter is_video_name (map fst es))) =
        Some (map (entry_summary req userEmail) (filter (\<lambda>e. is_video_name (fst e)) es))"
    by (simp add: fm o_def)
  then show ?thesis
    using g rd by (simp add: list_videos_def)
qed

text \<open>
  Claim C7: on a well-formed file system, when the partition directory of the principal
  can be ensured, the catalog answers 200 with a list that holds exactly the summaries
  (name, size, birth time, URLs) of the entries of the partition whose lower-cased
  extension is in the allow-list, every other entry skipped, sorted with the most recent
  birth time first. An empty partition, and a partition that did not exist before the
  request, give the empty list; a partition that existed is read as it was.
\<close>

theorem C7_catalog:
  assumes wf: "wf_node fs"
    and dn: "list_all plain_name (dirname req)"
    and g: "getUserDirectory req userEmail fs = Some (userDir, fs1)"
  shows "\<exists>st es vs.
     lookup fs1 userDir = Some (Dir st es) \<and>
     list_videos req userEmail fs = (Response 200 (Videos vs), fs1) \<and>
     mset vs = mset (map (entry_summary req userEmail) (filter (\<lambda>e. is_video_name (fst e)) es)) \<and>
     sorted_wrt (\<lambda>a b. uploadTime b \<le> uploadTime a) vs \<and>
     (es = [] \<longrightarrow> vs = []) \<and>
     (lookup fs userDir = None \<longrightarrow> es = []) \<and>
     (lookup fs userDir \<noteq> None \<longrightarrow> fs1 = fs)"
proof -
  from g have ud: "userDir = userDir_of req userEmail"
    and en: "ensureDirSync (now req) userDir fs = Some fs1"
    by (simp_all add: getUserDirectory_Some)
  from ensureDirSync_isDir [OF en] obtain st es where dir: "lookup fs1 userDir = Some (Dir st es)"
    by blast
  have "wf_node fs1"
    using ensureDirSync_wf [OF wf _ en] userDir_of_plain [OF dn] ud by simp
  then have wfd: "wf_node (Dir st es)" using dir by (rule wf_lookup)
  let ?vs = "js_sort most_recent_first
           (map (entry_summary req userEmail) (filter (\<lambda>e. is_video_name (fst e)) es))"
  have resp: "list_videos req userEmail fs = (Response 200 (Videos ?vs), fs1)"
    by (rule list_videos_listing [OF dir wfd g])
  have fresh: "lookup fs userDir = None \<longrightarrow> es = []"
    using ensureDirSync_fresh [OF _ en] dir by auto
  have same: "lookup fs userDir \<noteq> None \<longrightarrow> fs1 = fs"
  proof
    assume "lookup fs userDir \<noteq> None"
    then obtain n where n: "lookup fs userDir = Some n" by auto
    show "fs1 = fs"
    proof (cases n)
      case (File x)
      with n en ensureDirSync_file show ?thesis by fastforce
    next
      case (Dir x y)
      with n en ensureDirSync_existing show ?thesis by fastforce
    qed
  qed
  have empty: "es = [] \<longrightarrow> ?vs = []" by (simp add: js_sort_def)
  have "lookup fs1 userDir = Some (Dir st es) \<and>
     list_videos req userEmail fs = (Response 200 (Videos ?vs), fs1) \<and>
     mset ?vs = mset (map (entry_summary req userEmail) (filter (\<lambda>e. is_video_name (fst e)) es)) \<and>
     sorted_wrt (\<lambda>a b. uploadTime b \<le> uploadTime a) ?vs \<and>
     (es = [] \<longrightarrow> ?vs = []) \<and>
     (lookup fs userDir = None \<longrightarrow> es = []) \<and>
     (lookup fs userDir \<noteq> None \<longrightarrow> fs1 = fs)"
    using dir resp fresh same empty by (simp add: mset_js_sort sorted_js_sort_recent)
  then show ?thesis
    by (intro exI [where x = st] exI [where x = es] exI [where x = "?vs"])
qed

section \<open>The stored file name\<close>

lemma char_eqI: "(of_char a :: nat) = of_char b \<Longrightarrow> a = b"
  by simp

lemma is_digit_digit_char: "m < 10 \<Longrightarrow> is_digit (digit_char m)"
  by (simp add: is_digit_def digit_char_def)

lemma digit_char_inj: "a < 10 \<Longrightarrow> b < 10 \<Longrightarrow> digit_char a = digit_char b \<Longrightarrow> a = b"
proof -
  assume a: "a < 10" and b: "b < 10" and eq: "digit_char a = digit_char b"
  from eq have "(of_char (digit_char a) :: nat) = of_char (digit_char b)" by simp
  with a b show "a = b" by (simp add: digit_char_def)
qed

lemma pad_digits: "c \<in> set (pad k n) \<Longrightarrow> is_digit c"
  by (induction k n rule: pad.induct) (auto simp: is_digit_digit_char)

lemma length_pad: "length (pad k n) = k"
  by (induction k n rule: pad.induct) auto

lemma pad_inj: "n < 10 ^ k \<Longrightarrow> m < 10 ^ k \<Longrightarrow> pad k n = pad k m \<Longrightarrow> n = m"
proof (induction k arbitrary: n m)
  case 0
  then show ?case by simp
next
  case (Suc k)
  from Suc.prems(3) have p: "pad k (n div 10) = pad k (m div 10)"
    and d: "digit_char (n mod 10) = digit_char (m mod 10)"
    by simp_all
  from Suc.prems(1,2) have "n div 10 < 10 ^ k" "m div 10 < 10 ^ k"
    by (simp_all add: less_mult_imp_div_less mult.commute)
  with Suc.IH p have "n div 10 = m div 10" by blast
  moreover from d have "n mod 10 = m mod 10" by (rule digit_char_inj [rotated 2]) simp_all
  ultimately show ?case by (metis div_mult_mod_eq)
qed

lemma digit_not_unsafe:
  "is_digit c \<Longrightarrow> c \<noteq> CHR '':'' \<and> c \<noteq> CHR ''.'' \<and> c \<noteq> CHR ''-'' \<and> c \<noteq> CHR ''/''"
  by (auto simp: is_digit_def)

lemma replace_unsafe_pad: "replace_unsafe (pad k n) = pad k n"
  unfolding replace_unsafe_def
  by (rule map_idI) (auto dest!: pad_digits digit_not_unsafe)

lemma replace_unsafe_append: "replace_unsafe (a @ b) = replace_unsafe a @ replace_unsafe b"
  by (simp add: replace_unsafe_def)

lemma replace_unsafe_no_dot: "CHR ''.'' \<notin> set (replace_unsafe s)"
  by (auto simp: replace_unsafe_def)

lemma replace_unsafe_no_slash: "CHR ''/'' \<notin> set s \<Longrightarrow> CHR ''/'' \<notin> set (replace_unsafe s)"
  by (auto simp: replace_unsafe_def)

lemma pad_no_slash: "CHR ''/'' \<notin> set (pad k n)"
  using pad_digits digit_not_unsafe by blast

lemma iso_year_no_slash: "CHR ''/'' \<notin> set (iso_year y)"
  by (simp add: iso_year_def pad_no_slash)

lemma iso_seconds_no_slash: "CHR ''/'' \<notin> set (iso_seconds s)"
  by (simp add: iso_seconds_def Let_def pad_no_slash iso_year_no_slash split: prod.splits)

lemma toISOString_no_slash: "CHR ''/'' \<notin> set (toISOString t)"
  by (simp add: toISOString_def pad_no_slash iso_seconds_no_slash)

lemma toISOString_nonempty: "toISOString t \<noteq> []"
  by (simp add: toISOString_def)

text \<open>The time stamp of a stored name: not empty, without a dot or a slash.\<close>

lemma timestamp_shape:
  "replace_unsafe (toISOString t) \<noteq> [] \<and>
   CHR ''.'' \<notin> set (replace_unsafe (toISOString t)) \<and>
   CHR ''/'' \<notin> set (replace_unsafe (toISOString t))"
  using toISOString_nonempty [of t] toISOString_no_slash [of t]
  by (simp add: replace_unsafe_no_dot replace_unsafe_no_slash) (simp add: replace_unsafe_def)

lemma basename_of_no_slash: "CHR ''/'' \<notin> set (basename_of p)"
  by (auto simp: basename_of_def dest: set_takeWhileD)

lemma basename_of_plain: "CHR ''/'' \<notin> set s \<Longrightarrow> basename_of s = s"
proof -
  assume ns: "CHR ''/'' \<notin> set s"
  then have d: "dropWhile (\<lambda>c. c = CHR ''/'') (rev s) = rev s"
    by (cases "rev s") (auto simp: rev_eq_Cons_iff)
  from ns have t: "takeWhile (\<lambda>c. c \<noteq> CHR ''/'') (rev s) = rev s"
    by (auto simp: takeWhile_eq_all_conv)
  show ?thesis unfolding basename_of_def d t by simp
qed

text \<open>An extension is empty, or a dot followed by characters that are neither dots nor slashes.\<close>

lemma extname_shape:
  "extname p = [] \<or>
   (\<exists>e. extname p = CHR ''.'' # e \<and> CHR ''.'' \<notin> set e \<and> CHR ''/'' \<notin> set e)"
proof -
  let ?b = "basename_of p"
  let ?e = "rev (takeWhile (\<lambda>c. c \<noteq> CHR ''.'') (rev ?b))"
  have "CHR ''.'' \<notin> set ?e" by (auto dest: set_takeWhileD)
  moreover have "CHR ''/'' \<notin> set ?e"
    using basename_of_no_slash [of p] by (auto dest: set_takeWhileD)
  ultimately show ?thesis by (auto simp: extname_def Let_def)
qed

lemma extname_no_slash: "CHR ''/'' \<notin> set (extname p)"
  using extname_shape [of p] by auto

lemma extname_after_stem:
  assumes ne: "ts \<noteq> []" and nd: "CHR ''.'' \<notin> set ts" and ns: "CHR ''/'' \<notin> set ts"
  shows "extname (ts @ extname p) = extname p"
proof -
  from extname_shape [of p] show ?thesis
  proof
    assume e: "extname p = []"
    with nd ns show ?thesis by (simp add: extname_def basename_of_plain)
  next
    assume "\<exists>e. extname p = CHR ''.'' # e \<and> CHR ''.'' \<notin> set e \<and> CHR ''/'' \<notin> set e"
    then obtain e where e: "extname p = CHR ''.'' # e"
      and ed: "CHR ''.'' \<notin> set e" and es: "CHR ''/'' \<notin> set e" by blast
    let ?s = "ts @ CHR ''.'' # e"
    have b: "basename_of ?s = ?s" using ns es by (simp add: basename_of_plain)
    have tw: "takeWhile (\<lambda>c. c \<noteq> CHR ''.'') (rev ?s) = rev e"
      using ed by (auto simp: takeWhile_tail)
    from ne nd have "?s \<noteq> ''..''" by (cases ts) auto
    moreover from ne have "length e + 1 \<noteq> length ?s" by (cases ts) auto
    ultimately have "extname ?s = CHR ''.'' # e"
      unfolding extname_def b Let_def tw by simp
    with e show ?thesis by simp
  qed
qed

lemma extname_storage_filename:
  "extname (storage_filename t file) = extname (originalname file)"
  unfolding storage_filename_def using timestamp_shape [of t]
  by (intro extname_after_stem) simp_all

lemma storage_filename_plain: "plain_name (storage_filename t file)"
proof -
  let ?ts = "replace_unsafe (toISOString t)"
  from timestamp_shape [of t] obtain c cs where ts: "?ts = c # cs" and c: "c \<noteq> CHR ''.''"
    and ns: "CHR ''/'' \<notin> set ?ts"
    by (cases ?ts) auto
  from ns extname_no_slash [of "originalname file"]
  have "CHR ''/'' \<notin> set (storage_filename t file)"
    by (simp add: storage_filename_def)
  moreover have "storage_filename t file = c # cs @ extname (originalname file)"
    by (simp add: storage_filename_def ts)
  ultimately show ?thesis using c by (auto simp: plain_name_def)
qed

lemma of_char_lower_char:
  "(of_char (lower_char c) :: nat) = (if is_upper c then of_char c + 32 else of_char c)"
  by (simp add: lower_char_def is_upper_def Let_def)

lemma lower_char_dot: "lower_char c = CHR ''.'' \<longleftrightarrow> c = CHR ''.''"
proof
  assume "lower_char c = CHR ''.''"
  then have "(of_char (lower_char c) :: nat) = of_char CHR ''.''" by simp
  then have "(of_char c :: nat) = of_char CHR ''.''"
    by (simp add: of_char_lower_char is_upper_def Let_def split: if_splits)
  then show "c = CHR ''.''" by (simp only: of_char_eq_iff)
next
  assume "c = CHR ''.''"
  then show "lower_char c = CHR ''.''" by (simp add: lower_char_def is_upper_def)
qed

lemma lower_char_slash: "lower_char c = CHR ''/'' \<longleftrightarrow> c = CHR ''/''"
proof
  assume "lower_char c = CHR ''/''"
  then have "(of_char (lower_char c) :: nat) = of_char CHR ''/''" by simp
  then have "(of_char c :: nat) = of_char CHR ''/''"
    by (simp add: of_char_lower_char is_upper_def Let_def split: if_splits)
  then show "c = CHR ''/''" by (simp only: of_char_eq_iff)
next
  assume "c = CHR ''/''"
  then show "lower_char c = CHR ''/''" by (simp add: lower_char_def is_upper_def)
qed

lemma basename_of_lower: "basename_of (toLowerCase s) = toLowerCase (basename_of s)"
  by (simp add: basename_of_def toLowerCase_def rev_map dropWhile_map takeWhile_map
      o_def lower_char_slash)

lemma toLowerCase_dots: "toLowerCase b = ''..'' \<longleftrightarrow> b = ''..''"
  by (auto simp: toLowerCase_def lower_char_dot)

lemma extname_toLowerCase: "extname (toLowerCase s) = toLowerCase (extname s)"
proof -
  let ?b = "basename_of s"
  have tw: "takeWhile (\<lambda>c. c \<noteq> CHR ''.'') (rev (toLowerCase ?b)) =
            toLowerCase (takeWhile (\<lambda>c. c \<noteq> CHR ''.'') (rev ?b))"
    by (simp add: toLowerCase_def rev_map takeWhile_map o_def lower_char_dot)
  have mem: "CHR ''.'' \<in> set (toLowerCase ?b) \<longleftrightarrow> CHR ''.'' \<in> set ?b"
  proof
    assume "CHR ''.'' \<in> set (toLowerCase ?b)"
    then obtain x where "x \<in> set ?b" "lower_char x = CHR ''.''"
      by (auto simp: toLowerCase_def)
    then show "CHR ''.'' \<in> set ?b" by (simp add: lower_char_dot)
  next
    assume "CHR ''.'' \<in> set ?b"
    then have "lower_char CHR ''.'' \<in> set (toLowerCase ?b)"
      unfolding toLowerCase_def by (simp only: set_map) (rule imageI)
    then show "CHR ''.'' \<in> set (toLowerCase ?b)"
      by (simp add: lower_char_def is_upper_def)
  qed
  have len: "length (toLowerCase x) = length x" for x by (simp add: toLowerCase_def)
  have rv: "rev (toLowerCase x) = toLowerCase (rev x)" for x by (simp add: toLowerCase_def rev_map)
  have dot: "toLowerCase (CHR ''.'' # x) = CHR ''.'' # toLowerCase x" for x
    by (simp add: toLowerCase_def lower_char_dot)
  show ?thesis
    unfolding extname_def basename_of_lower Let_def tw
    by (simp add: mem len rv toLowerCase_dots dot) (simp add: toLowerCase_def)
qed

section \<open>Writing files and uploads\<close>

lemma write_file_Some:
  assumes "write_file t (U @ [n]) k fs = Some fs'"
  shows "\<exists>st es s. lookup fs U = Some (Dir st es) \<and> bytes s = k \<and>
           fs' = modify_at U (put_entry n (File s)) fs \<and>
           (map_of es n = None \<longrightarrow> birthtime s = t)"
proof -
  from assms obtain st es where dir: "lookup fs U = Some (Dir st es)"
    by (auto simp: write_file_def split: option.splits node.splits)
  show ?thesis
  proof (cases "map_of es n")
    case None
    with assms dir have "fs' = modify_at U (put_entry n (File \<lparr>birthtime = t, bytes = k\<rparr>)) fs"
      by (simp add: write_file_def)
    with dir None show ?thesis
      by (intro exI [where x = st] exI [where x = es]
          exI [where x = "\<lparr>birthtime = t, bytes = k\<rparr>"]) simp
  next
    case (Some v)
    with assms dir obtain old where v: "v = File old"
      by (cases v) (simp_all add: write_file_def)
    with assms dir Some have "fs' = modify_at U (put_entry n (File (old\<lparr>bytes := k\<rparr>))) fs"
      by (simp add: write_file_def)
    with dir Some show ?thesis
      by (intro exI [where x = st] exI [where x = es]
          exI [where x = "old\<lparr>bytes := k\<rparr>"]) simp
  qed
qed

lemma write_file_lookup:
  assumes "write_file t (U @ [n]) k fs = Some fs'"
  shows "\<exists>s. lookup fs' (U @ [n]) = Some (File s) \<and> bytes s = k"
proof -
  from write_file_Some [OF assms] obtain st es s where dir: "lookup fs U = Some (Dir st es)"
    and s: "bytes s = k" and fs': "fs' = modify_at U (put_entry n (File s)) fs"
    by blast
  have "lookup fs' (U @ [n]) = Some (File s)"
    by (simp add: fs' lookup_modify_at dir AList.update_conv')
  with s show ?thesis by blast
qed

lemma write_file_other:
  assumes "write_file t (U @ [n]) k fs = Some fs'" and "m \<noteq> n"
  shows "lookup fs' (U @ m # q) = lookup fs (U @ m # q)"
proof -
  from write_file_Some [OF assms(1)] obtain st es s where dir: "lookup fs U = Some (Dir st es)"
    and fs': "fs' = modify_at U (put_entry n (File s)) fs"
    by blast
  show ?thesis
    unfolding fs' lookup_modify_at
    using assms(2) by (simp add: lookup_append dir AList.update_conv')
qed

lemma write_file_dir:
  assumes "write_file t (U @ [n]) k fs = Some fs'"
  shows "\<exists>st es. lookup fs' U = Some (Dir st es)"
proof -
  from write_file_Some [OF assms] obtain st es s where dir: "lookup fs U = Some (Dir st es)"
    and fs': "fs' = modify_at U (put_entry n (File s)) fs"
    by blast
  have "lookup fs' (U @ []) = Some (Dir st (AList.update n (File s) es))"
    unfolding fs' lookup_modify_at by (simp add: dir)
  then show ?thesis by simp
qed

text \<open>What an upload that is answered 200 has done.\<close>

lemma upload_handler_200:
  assumes "upload_handler req e part fs = (Response 200 b, fs')"
  shows "\<exists>file fs1.
           part = Some file \<and> videoFileFilter file \<and> byte_count file \<le> fileSize \<and>
           ensureDirSync (now req) (userDir_of req e) fs = Some fs1 \<and>
           write_file (now req) (userDir_of req e @ [storage_filename (now req) file])
             (byte_count file) fs1 = Some fs' \<and>
           b = Uploaded (storage_filename (now req) file)
                 (getBaseUrl req @ ''/uploads/'' @ safeEmail e @ ''/'' @
                  storage_filename (now req) file)
                 (getBaseUrl req @ ''/share/'' @ safeEmail e @ ''/'' @
                  storage_filename (now req) file)
                 (now req)"
  using assms
  by (auto simp: upload_handler_def upload_single_def getUserDirectory_def Let_def
      path_join_plain storage_filename_plain min_def
      split: option.splits if_splits prod.splits attempt.splits sum.splits upload_error.splits)

lemma replace_unsafe_Cons:
  "replace_unsafe (c # s) =
     (if c = CHR '':'' \<or> c = CHR ''.'' \<or> c = CHR ''-'' then CHR ''_'' else c) #
     replace_unsafe s"
  by (simp add: replace_unsafe_def)

lemma replace_unsafe_Nil: "replace_unsafe [] = []"
  by (simp add: replace_unsafe_def)

lemma storage_filename_eq_iff:
  assumes "t1 div 1000 = t2 div 1000"
  shows "storage_filename t1 f1 = storage_filename t2 f2 \<longleftrightarrow>
           t1 = t2 \<and> extname (originalname f1) = extname (originalname f2)"
proof
  assume eq: "storage_filename t1 f1 = storage_filename t2 f2"
  let ?m1 = "nat (t1 mod 1000)" and ?m2 = "nat (t2 mod 1000)"
  from eq assms have
    "pad 3 ?m1 @ (''Z'' @ extname (originalname f1)) = pad 3 ?m2 @ (''Z'' @ extname (originalname f2))"
    by (simp add: storage_filename_def toISOString_def replace_unsafe_append replace_unsafe_Cons
        replace_unsafe_Nil replace_unsafe_pad)
  then have p: "pad 3 ?m1 = pad 3 ?m2"
    and e: "extname (originalname f1) = extname (originalname f2)"
    by (simp_all add: append_eq_append_conv length_pad)
  have "?m1 < 10 ^ 3" "?m2 < 10 ^ 3" by simp_all
  with p have "?m1 = ?m2" by (rule pad_inj [rotated 2])
  then have "t1 mod 1000 = t2 mod 1000" by simp
  with assms have "t1 = t2" by (metis div_mult_mod_eq)
  with e show "t1 = t2 \<and> extname (originalname f1) = extname (originalname f2)" by simp
next
  assume "t1 = t2 \<and> extname (originalname f1) = extname (originalname f2)"
  then show "storage_filename t1 f1 = storage_filename t2 f2"
    by (simp add: storage_filename_def)
qed

section \<open>The example file system\<close>

lemma example_wf: "wf_node example_fs"
  by (simp add: example_fs_def plain_name_def)

lemma example_dirname_plain: "list_all plain_name (dirname example_req)"
  by (simp add: example_req_def plain_name_def)

lemma alice_safe: "safeEmail ''alice@example.com'' = ''alice_example_com''"
  by (simp add: safeEmail_def is_upper_def is_lower_def is_digit_def)

lemma example_alice_userDir: "userDir_of example_req ''alice@example.com'' = alice_dir"
  by (simp add: userDir_of_eq alice_safe example_req_def alice_dir_def)

lemma example_alice_lookup:
  "lookup example_fs alice_dir =
     Some (Dir \<lparr>birthtime = 3000, bytes = 4096\<rparr>
       [(''old.mp4'', File \<lparr>birthtime = 1699900000000, bytes = 10\<rparr>),
        (''new.MP4'', File \<lparr>birthtime = 1699999000000, bytes = 20\<rparr>),
        (''notes.txt'', File \<lparr>birthtime = 1699999100000, bytes = 5\<rparr>)])"
  by (simp add: example_fs_def alice_dir_def)

lemma example_alice_dir:
  "getUserDirectory example_req ''alice@example.com'' example_fs = Some (alice_dir, example_fs)"
  by (simp add: getUserDirectory_def example_alice_userDir
      ensureDirSync_existing [OF example_alice_lookup])

lemma lower_char_examples:
  "lower_char CHR ''M'' = CHR ''m''" "lower_char CHR ''P'' = CHR ''p''"
  by (rule char_eqI, simp add: of_char_lower_char is_upper_def)+

lemma lower_char_id: "\<not> is_upper c \<Longrightarrow> lower_char c = c"
  by (simp add: lower_char_def)

lemma is_video_name_examples:
  "is_video_name ''old.mp4''" "is_video_name ''new.MP4''" "\<not> is_video_name ''notes.txt''"
  by (simp_all add: is_video_name_def extname_def basename_of_def toLowerCase_def lower_char_examples
      lower_char_id is_upper_def allowedExtensions_def)

lemma example_base_url: "getBaseUrl example_req = ''https://example.com/nitroshare''"
  by (simp add: getBaseUrl_def example_req_def)

lemma example_catalog:
  "list_videos example_req ''alice@example.com'' example_fs =
     (Response 200 (Videos
       [\<lparr>filename = ''new.MP4'', uploadTime = 1699999000000, size_bytes = 20,
          videoUrl = ''https://example.com/nitroshare/uploads/alice_example_com/new.MP4'',
          shareUrl = ''https://example.com/nitroshare/share/alice_example_com/new.MP4''\<rparr>,
        \<lparr>filename = ''old.mp4'', uploadTime = 1699900000000, size_bytes = 10,
          videoUrl = ''https://example.com/nitroshare/uploads/alice_example_com/old.mp4'',
          shareUrl = ''https://example.com/nitroshare/share/alice_example_com/old.mp4''\<rparr>]),
      example_fs)"
proof -
  have wf: "wf_node (Dir \<lparr>birthtime = 3000, bytes = 4096\<rparr>
       [(''old.mp4'', File \<lparr>birthtime = 1699900000000, bytes = 10\<rparr>),
        (''new.MP4'', File \<lparr>birthtime = 1699999000000, bytes = 20\<rparr>),
        (''notes.txt'', File \<lparr>birthtime = 1699999100000, bytes = 5\<rparr>)])"
    by (simp add: plain_name_def)
  show ?thesis
    unfolding list_videos_listing [OF example_alice_lookup wf example_alice_dir]
    by (simp add: is_video_name_examples entry_summary_def js_sort_def most_recent_first_def
        example_base_url alice_safe)
qed

theorem C7_catalog_witness:
  "wf_node example_fs \<and> list_all plain_name (dirname example_req) \<and>
   getUserDirectory example_req ''alice@example.com'' example_fs = Some (alice_dir, example_fs) \<and>
   (\<exists>vs. list_videos example_req ''alice@example.com'' example_fs =
            (Response 200 (Videos vs), example_fs) \<and>
          sorted_wrt (\<lambda>a b. uploadTime b \<le> uploadTime a) vs)"
  using C7_catalog [OF example_wf example_dirname_plain example_alice_dir]
    example_wf example_dirname_plain example_alice_dir
  by blast

section \<open>Uploads: the stored name and its extension\<close>

lemma upload_new_file:
  assumes acc: "videoFileFilter file" and sz: "byte_count file \<le> fileSize"
    and dir: "lookup fs (userDir_of req e) = Some (Dir st es)"
    and new: "map_of es (storage_filename (now req) file) = None"
  shows "upload_handler req e (Some file) fs =
     (Response 200
        (Uploaded (storage_filename (now req) file)
           (getBaseUrl req @ ''/uploads/'' @ safeEmail e @ ''/'' @ storage_filename (now req) file)
           (getBaseUrl req @ ''/share/'' @ safeEmail e @ ''/'' @ storage_filename (now req) file)
           (now req)),
      modify_at (userDir_of req e)
        (put_entry (storage_filename (now req) file)
           (File \<lparr>birthtime = now req, bytes = byte_count file\<rparr>)) fs)"
  using acc sz
  by (simp add: upload_handler_def upload_single_def getUserDirectory_def
      ensureDirSync_existing [OF dir] path_join_plain storage_filename_plain write_file_def
      dir new min_def)

lemma upload_existing_file:
  assumes acc: "videoFileFilter file" and sz: "byte_count file \<le> fileSize"
    and dir: "lookup fs (userDir_of req e) = Some (Dir st es)"
    and old: "map_of es (storage_filename (now req) file) = Some (File old)"
  shows "upload_handler req e (Some file) fs =
     (Response 200
        (Uploaded (storage_filename (now req) file)
           (getBaseUrl req @ ''/uploads/'' @ safeEmail e @ ''/'' @ storage_filename (now req) file)
           (getBaseUrl req @ ''/share/'' @ safeEmail e @ ''/'' @ storage_filename (now req) file)
           (now req)),
      modify_at (userDir_of req e)
        (put_entry (storage_filename (now req) file) (File (old\<lparr>bytes := byte_count file\<rparr>))) fs)"
  using acc sz
  by (simp add: upload_handler_def upload_single_def getUserDirectory_def
      ensureDirSync_existing [OF dir] path_join_plain storage_filename_plain write_file_def
      dir old min_def)

lemma pad_numeral:
  "pad (numeral k) n = pad (pred_numeral k) (n div 10) @ [digit_char (n mod 10)]"
proof -
  have "(numeral k :: nat) = Suc (pred_numeral k)" by (rule numeral_eq_Suc)
  then show ?thesis by (simp only: pad.simps)
qed

lemma digit_char_simps:
  "digit_char 0 = CHR ''0''" "digit_char 1 = CHR ''1''" "digit_char 2 = CHR ''2''"
  "digit_char 3 = CHR ''3''" "digit_char 4 = CHR ''4''" "digit_char 5 = CHR ''5''"
  "digit_char 6 = CHR ''6''" "digit_char 7 = CHR ''7''" "digit_char 8 = CHR ''8''"
  "digit_char 9 = CHR ''9''" "digit_char (Suc 0) = CHR ''1''"
  by (rule char_eqI, simp add: digit_char_def)+

lemma example_civil: "civil_from_days 19675 = (2023, 11, 14)"
  by code_simp

lemma example_iso_seconds: "iso_seconds 1700000000 = ''2023-11-14T22:13:20''"
  by (simp add: iso_seconds_def example_civil iso_year_def pad_numeral digit_char_simps)

lemma example_timestamp:
  "replace_unsafe (toISOString 1700000000123) = ''2023_11_14T22_13_20_123Z''"
  by (simp add: toISOString_def example_iso_seconds pad_numeral digit_char_simps
      replace_unsafe_def)

lemma later_timestamp:
  "replace_unsafe (toISOString 1700000000456) = ''2023_11_14T22_13_20_456Z''"
  by (simp add: toISOString_def example_iso_seconds pad_numeral digit_char_simps
      replace_unsafe_def)

lemma extname_examples:
  "extname ''clip.exe'' = ''.exe''" "extname ''a.mp4'' = ''.mp4''" "extname ''b.mp4'' = ''.mp4''"
  by (simp_all add: extname_def basename_of_def)

lemma example_names:
  "storage_filename (now example_req) exe_file = ''2023_11_14T22_13_20_123Z.exe''"
  "storage_filename (now example_req) clip_a = ''2023_11_14T22_13_20_123Z.mp4''"
  "storage_filename (now example_req) clip_b = ''2023_11_14T22_13_20_123Z.mp4''"
  "storage_filename (now later_req) clip_b = ''2023_11_14T22_13_20_456Z.mp4''"
  by (simp_all add: storage_filename_def example_req_def later_req_def exe_file_def clip_a_def
      clip_b_def example_timestamp later_timestamp extname_examples)

lemma example_files_accepted:
  "videoFileFilter exe_file" "videoFileFilter clip_a" "videoFileFilter clip_b"
  "byte_count exe_file \<le> fileSize" "byte_count clip_a \<le> fileSize" "byte_count clip_b \<le> fileSize"
  by (simp_all add: videoFileFilter_def hasValidMimeType_def exe_file_def clip_a_def clip_b_def
      fileSize_def)

lemma exe_upload_eq:
  "exe_upload =
     (Response 200
        (Uploaded ''2023_11_14T22_13_20_123Z.exe''
           ''https://example.com/nitroshare/uploads/alice_example_com/2023_11_14T22_13_20_123Z.exe''
           ''https://example.com/nitroshare/share/alice_example_com/2023_11_14T22_13_20_123Z.exe''
           1700000000123),
      modify_at alice_dir
        (put_entry ''2023_11_14T22_13_20_123Z.exe''
           (File \<lparr>birthtime = 1700000000123, bytes = 3\<rparr>)) example_fs)"
  unfolding exe_upload_def
  by (subst upload_new_file [OF example_files_accepted(1) example_files_accepted(4)])
     (simp_all add: example_alice_userDir example_alice_lookup example_names example_base_url
        alice_safe, simp_all add: example_req_def exe_file_def)

lemma is_video_name_storage:
  "is_video_name (storage_filename t file) \<longleftrightarrow> hasValidExtension file"
  by (simp add: is_video_name_def hasValidExtension_def extname_storage_filename
      extname_toLowerCase)

lemma filter_accepts:
  "videoFileFilter file \<Longrightarrow> hasValidExtension file \<or> startsWith (mimetype file) ''video/''"
  using allowedMimeTypes_video [of "mimetype file"]
  by (auto simp: videoFileFilter_def hasValidMimeType_def)

lemma exe_not_listed:
  "extname ''2023_11_14T22_13_20_123Z.exe'' = ''.exe''"
  "toLowerCase ''.exe'' = ''.exe''"
  "''.exe'' \<notin> set allowedExtensions"
  by (simp_all add: extname_def basename_of_def toLowerCase_def lower_char_id is_upper_def
      allowedExtensions_def)

text \<open>
  Claim C6, as stated, fails: an upload of \<open>clip.exe\<close> declared as \<open>video/mp4\<close> is
  answered 200, and the asset it leaves in the partition has the extension \<open>.exe\<close>,
  which is not in the allow-list.
\<close>

theorem C6_counterexample:
  "fst exe_upload =
     Response 200
       (Uploaded ''2023_11_14T22_13_20_123Z.exe''
          ''https://example.com/nitroshare/uploads/alice_example_com/2023_11_14T22_13_20_123Z.exe''
          ''https://example.com/nitroshare/share/alice_example_com/2023_11_14T22_13_20_123Z.exe''
          1700000000123) \<and>
   lookup (snd exe_upload) (alice_dir @ [''2023_11_14T22_13_20_123Z.exe'']) =
     Some (File \<lparr>birthtime = 1700000000123, bytes = 3\<rparr>) \<and>
   extname ''2023_11_14T22_13_20_123Z.exe'' = ''.exe'' \<and>
   toLowerCase ''.exe'' \<notin> set allowedExtensions"
  by (simp add: exe_upload_eq lookup_modify_at example_alice_lookup exe_not_listed)

text \<open>
  Claim C6, amended: for every asset stored by an upload that is answered 200, the
  extension of the stored file name is the extension of the original file name, letter
  case included; it is in the allow-list (compared in lower case, as the catalog compares
  it) exactly when the lower-cased original extension is, and when it is not, the
  declared content type starts with \<open>video/\<close>.
\<close>

theorem C6_stored_extension:
  assumes "upload_handler req userEmail (Some file) fs = (Response 200 (Uploaded name v s t), fs')"
  shows "(\<exists>st. lookup fs' (userDir_of req userEmail @ [name]) = Some (File st) \<and>
               bytes st = byte_count file) \<and>
         extname name = extname (originalname file) \<and>
         (is_video_name name \<longleftrightarrow> hasValidExtension file) \<and>
         (is_video_name name \<or> startsWith (mimetype file) ''video/'')"
proof -
  from upload_handler_200 [OF assms] obtain fs1 where
    acc: "videoFileFilter file"
    and wr: "write_file (now req) (userDir_of req userEmail @ [storage_filename (now req) file])
               (byte_count file) fs1 = Some fs'"
    and name: "name = storage_filename (now req) file"
    by auto
  from write_file_lookup [OF wr] name
  have "\<exists>st. lookup fs' (userDir_of req userEmail @ [name]) = Some (File st) \<and>
               bytes st = byte_count file" by simp
  moreover have "extname name = extname (originalname file)"
    by (simp add: name extname_storage_filename)
  moreover have "is_video_name name \<longleftrightarrow> hasValidExtension file"
    by (simp add: name is_video_name_storage)
  ultimately show ?thesis using filter_accepts [OF acc] by blast
qed

lemma exe_upload_handler:
  "upload_handler example_req ''alice@example.com'' (Some exe_file) example_fs =
     (Response 200
        (Uploaded ''2023_11_14T22_13_20_123Z.exe''
           ''https://example.com/nitroshare/uploads/alice_example_com/2023_11_14T22_13_20_123Z.exe''
           ''https://example.com/nitroshare/share/alice_example_com/2023_11_14T22_13_20_123Z.exe''
           1700000000123),
      snd exe_upload)"
  using exe_upload_eq by (simp add: exe_upload_def)

theorem C6_stored_extension_witness:
  "extname ''2023_11_14T22_13_20_123Z.exe'' = extname (originalname exe_file) \<and>
   \<not> is_video_name ''2023_11_14T22_13_20_123Z.exe'' \<and>
   \<not> hasValidExtension exe_file \<and>
   startsWith (mimetype exe_file) ''video/''"
proof -
  note th = C6_stored_extension [OF exe_upload_handler]
  have nv: "\<not> is_video_name ''2023_11_14T22_13_20_123Z.exe''"
    by (simp add: is_video_name_def exe_not_listed)
  from th have "extname ''2023_11_14T22_13_20_123Z.exe'' = extname (originalname exe_file)"
    by blast
  moreover from th nv have "\<not> hasValidExtension exe_file" by blast
  moreover from th nv have "startsWith (mimetype exe_file) ''video/''" by blast
  ultimately show ?thesis using nv by blast
qed

section \<open>Uploads in the same second\<close>

lemma lookup_modify_at_self:
  "lookup (modify_at p f n) p = map_option f (lookup n p)"
  using lookup_modify_at [of p f n "[]"] by (simp split: option.splits)

lemma userDir_of_dirname:
  "dirname req1 = dirname req2 \<Longrightarrow> userDir_of req1 e = userDir_of req2 e"
  by (simp add: userDir_of_eq)

text \<open>
  Claim C5, amended: for two uploads by the same user, one after the other, both answered
  200, in the same wall-clock second: the two stored file names are distinct exactly when
  the two instants differ (in their millisecond) or the two original extensions differ,
  and then both assets exist afterwards, each with its own byte count. When the names
  are the same, one asset exists under that name, with the byte count of the later
  upload.
\<close>

theorem C5_same_second:
  assumes sec: "now req1 div 1000 = now req2 div 1000"
    and dn: "dirname req1 = dirname req2"
    and u1: "upload_handler req1 userEmail (Some f1) fs = (Response 200 (Uploaded n1 v1 s1 t1), fs1)"
    and u2: "upload_handler req2 userEmail (Some f2) fs1 = (Response 200 (Uploaded n2 v2 s2 t2), fs2)"
  shows "(n1 = n2 \<longleftrightarrow>
            now req1 = now req2 \<and> extname (originalname f1) = extname (originalname f2)) \<and>
         (n1 \<noteq> n2 \<longrightarrow>
            (\<exists>st1 st2.
               lookup fs2 (userDir_of req1 userEmail @ [n1]) = Some (File st1) \<and>
               bytes st1 = byte_count f1 \<and>
               lookup fs2 (userDir_of req1 userEmail @ [n2]) = Some (File st2) \<and>
               bytes st2 = byte_count f2)) \<and>
         (n1 = n2 \<longrightarrow>
            (\<exists>st. lookup fs2 (userDir_of req1 userEmail @ [n1]) = Some (File st) \<and>
                  bytes st = byte_count f2))"
proof -
  let ?U = "userDir_of req1 userEmail"
  from upload_handler_200 [OF u1] obtain fsA where
    w1: "write_file (now req1) (?U @ [storage_filename (now req1) f1]) (byte_count f1) fsA = Some fs1"
    and n1: "n1 = storage_filename (now req1) f1"
    by auto
  from upload_handler_200 [OF u2] userDir_of_dirname [OF dn, of userEmail] obtain fsB where
    e2: "ensureDirSync (now req2) ?U fs1 = Some fsB"
    and w2: "write_file (now req2) (?U @ [storage_filename (now req2) f2]) (byte_count f2) fsB = Some fs2"
    and n2: "n2 = storage_filename (now req2) f2"
    by auto
  from write_file_dir [OF w1] obtain st es where "lookup fs1 ?U = Some (Dir st es)" by blast
  from ensureDirSync_existing [OF this] e2 have fsB: "fsB = fs1" by simp
  have names: "n1 = n2 \<longleftrightarrow>
            now req1 = now req2 \<and> extname (originalname f1) = extname (originalname f2)"
    unfolding n1 n2 by (rule storage_filename_eq_iff [OF sec])
  from write_file_lookup [OF w1] n1 obtain st1 where
    a1: "lookup fs1 (?U @ [n1]) = Some (File st1)" and b1: "bytes st1 = byte_count f1"
    by auto
  from write_file_lookup [OF w2] n2 obtain st2 where
    a2: "lookup fs2 (?U @ [n2]) = Some (File st2)" and b2: "bytes st2 = byte_count f2"
    by auto
  have keep: "n1 \<noteq> n2 \<Longrightarrow> lookup fs2 (?U @ [n1]) = Some (File st1)"
    using write_file_other [OF w2, of n1 "[]"] a1 n2 fsB by simp
  show ?thesis
    using names a2 b2 b1 keep by auto
qed

lemma first_upload_eq:
  "first_upload =
     (Response 200
        (Uploaded ''2023_11_14T22_13_20_123Z.mp4''
           ''https://example.com/nitroshare/uploads/alice_example_com/2023_11_14T22_13_20_123Z.mp4''
           ''https://example.com/nitroshare/share/alice_example_com/2023_11_14T22_13_20_123Z.mp4''
           1700000000123),
      modify_at alice_dir
        (put_entry ''2023_11_14T22_13_20_123Z.mp4''
           (File \<lparr>birthtime = 1700000000123, bytes = 3\<rparr>)) example_fs)"
  unfolding first_upload_def
  by (subst upload_new_file [OF example_files_accepted(2) example_files_accepted(5)])
     (simp_all add: example_alice_userDir example_alice_lookup example_names example_base_url
        alice_safe, simp_all add: example_req_def clip_a_def)

lemma first_upload_dir:
  "lookup (snd first_upload) alice_dir =
     Some (Dir \<lparr>birthtime = 3000, bytes = 4096\<rparr>
       [(''old.mp4'', File \<lparr>birthtime = 1699900000000, bytes = 10\<rparr>),
        (''new.MP4'', File \<lparr>birthtime = 1699999000000, bytes = 20\<rparr>),
        (''notes.txt'', File \<lparr>birthtime = 1699999100000, bytes = 5\<rparr>),
        (''2023_11_14T22_13_20_123Z.mp4'', File \<lparr>birthtime = 1700000000123, bytes = 3\<rparr>)])"
  by (simp add: first_upload_eq lookup_modify_at_self example_alice_lookup)

lemma later_req_facts:
  "userDir_of later_req ''alice@example.com'' = alice_dir"
  "getBaseUrl later_req = ''https://example.com/nitroshare''"
  "now later_req = 1700000000456" "now example_req = 1700000000123"
  "dirname example_req = dirname later_req"
  by (simp_all add: userDir_of_eq alice_safe getBaseUrl_def later_req_def example_req_def
      alice_dir_def)

lemma example_names_at:
  "storage_filename 1700000000123 clip_b = ''2023_11_14T22_13_20_123Z.mp4''"
  "storage_filename 1700000000456 clip_b = ''2023_11_14T22_13_20_456Z.mp4''"
  using example_names by (simp_all add: later_req_facts)

lemma example_byte_counts: "byte_count clip_a = 3" "byte_count clip_b = 7"
  by (simp_all add: clip_a_def clip_b_def)

lemma second_upload_eq:
  "second_upload =
     (Response 200
        (Uploaded ''2023_11_14T22_13_20_123Z.mp4''
           ''https://example.com/nitroshare/uploads/alice_example_com/2023_11_14T22_13_20_123Z.mp4''
           ''https://example.com/nitroshare/share/alice_example_com/2023_11_14T22_13_20_123Z.mp4''
           1700000000123),
      modify_at alice_dir
        (put_entry ''2023_11_14T22_13_20_123Z.mp4''
           (File \<lparr>birthtime = 1700000000123, bytes = 7\<rparr>)) (snd first_upload))"
  unfolding second_upload_def
  by (subst upload_existing_file [OF example_files_accepted(3) example_files_accepted(6),
        where old = "\<lparr>birthtime = 1700000000123, bytes = 3\<rparr>"])
     (simp_all add: example_alice_userDir first_upload_dir example_names_at example_base_url
        alice_safe later_req_facts example_byte_counts)+

lemma later_upload_eq:
  "later_upload =
     (Response 200
        (Uploaded ''2023_11_14T22_13_20_456Z.mp4''
           ''https://example.com/nitroshare/uploads/alice_example_com/2023_11_14T22_13_20_456Z.mp4''
           ''https://example.com/nitroshare/share/alice_example_com/2023_11_14T22_13_20_456Z.mp4''
           1700000000456),
      modify_at alice_dir
        (put_entry ''2023_11_14T22_13_20_456Z.mp4''
           (File \<lparr>birthtime = 1700000000456, bytes = 7\<rparr>)) (snd first_upload))"
  unfolding later_upload_def
  by (subst upload_new_file [OF example_files_accepted(3) example_files_accepted(6)])
     (simp_all add: later_req_facts first_upload_dir example_names_at alice_safe
        example_byte_counts)+

text \<open>
  Claim C5, as stated, fails: two uploads of \<open>.mp4\<close> files by the same user in the same
  millisecond are both answered 200 with the same file name; where the first upload left
  3 bytes, the second leaves 7 bytes under that name, and the partition has gained one
  entry, not two.
\<close>

theorem C5_counterexample:
  "now example_req div 1000 = now example_req div 1000 \<and>
   fst first_upload =
     Response 200
       (Uploaded ''2023_11_14T22_13_20_123Z.mp4''
          ''https://example.com/nitroshare/uploads/alice_example_com/2023_11_14T22_13_20_123Z.mp4''
          ''https://example.com/nitroshare/share/alice_example_com/2023_11_14T22_13_20_123Z.mp4''
          1700000000123) \<and>
   fst second_upload = fst first_upload \<and>
   lookup (snd first_upload) (alice_dir @ [''2023_11_14T22_13_20_123Z.mp4'']) =
     Some (File \<lparr>birthtime = 1700000000123, bytes = 3\<rparr>) \<and>
   lookup (snd second_upload) (alice_dir @ [''2023_11_14T22_13_20_123Z.mp4'']) =
     Some (File \<lparr>birthtime = 1700000000123, bytes = 7\<rparr>) \<and>
   readdir (snd second_upload) alice_dir =
     Some [''old.mp4'', ''new.MP4'', ''notes.txt'', ''2023_11_14T22_13_20_123Z.mp4'']"
  by (simp add: second_upload_eq lookup_modify_at lookup_modify_at_self first_upload_dir
      readdir_def)
     (simp add: first_upload_eq lookup_modify_at example_alice_lookup)

lemma first_upload_handler:
  "upload_handler example_req ''alice@example.com'' (Some clip_a) example_fs =
     (Response 200
        (Uploaded ''2023_11_14T22_13_20_123Z.mp4''
           ''https://example.com/nitroshare/uploads/alice_example_com/2023_11_14T22_13_20_123Z.mp4''
           ''https://example.com/nitroshare/share/alice_example_com/2023_11_14T22_13_20_123Z.mp4''
           1700000000123),
      snd first_upload)"
  using first_upload_eq by (simp add: first_upload_def)

lemma later_upload_handler:
  "upload_handler later_req ''alice@example.com'' (Some clip_b) (snd first_upload) =
     (Response 200
        (Uploaded ''2023_11_14T22_13_20_456Z.mp4''
           ''https://example.com/nitroshare/uploads/alice_example_com/2023_11_14T22_13_20_456Z.mp4''
           ''https://example.com/nitroshare/share/alice_example_com/2023_11_14T22_13_20_456Z.mp4''
           1700000000456),
      snd later_upload)"
  using later_upload_eq by (simp add: later_upload_def)

lemma example_same_second: "now example_req div 1000 = now later_req div 1000"
  by (simp add: later_req_facts)

theorem C5_same_second_witness:
  "now example_req div 1000 = now later_req div 1000 \<and>
   now example_req \<noteq> now later_req \<and>
   (\<exists>st1 st2.
      lookup (snd later_upload) (alice_dir @ [''2023_11_14T22_13_20_123Z.mp4'']) =
        Some (File st1) \<and>
      bytes st1 = byte_count clip_a \<and>
      lookup (snd later_upload) (alice_dir @ [''2023_11_14T22_13_20_456Z.mp4'']) =
        Some (File st2) \<and>
      bytes st2 = byte_count clip_b)"
proof -
  note th = C5_same_second [OF example_same_second later_req_facts(5) first_upload_handler
      later_upload_handler]
  have ne: "now example_req \<noteq> now later_req" by (simp add: later_req_facts)
  with th have "''2023_11_14T22_13_20_123Z.mp4'' \<noteq> ''2023_11_14T22_13_20_456Z.mp4''" by blast
  with th have "\<exists>st1 st2.
      lookup (snd later_upload)
        (userDir_of example_req ''alice@example.com'' @ [''2023_11_14T22_13_20_123Z.mp4'']) =
        Some (File st1) \<and>
      bytes st1 = byte_count clip_a \<and>
      lookup (snd later_upload)
        (userDir_of example_req ''alice@example.com'' @ [''2023_11_14T22_13_20_456Z.mp4'']) =
        Some (File st2) \<and>
      bytes st2 = byte_count clip_b" by blast
  then show ?thesis using ne example_same_second by (simp add: example_alice_userDir)
qed

section \<open>Uploads over the ceiling\<close>

lemma ensureDirSync_cases:
  assumes "ensureDirSync t p fs = Some fs1"
  shows "(lookup fs p = None \<and> lookup fs1 p = Some (Dir \<lparr>birthtime = t, bytes = 0\<rparr> [])) \<or>
         (\<exists>st es. lookup fs p = Some (Dir st es) \<and> fs1 = fs)"
proof (cases "lookup fs p")
  case None
  with ensureDirSync_fresh [OF None assms] show ?thesis by simp
next
  case (Some n)
  show ?thesis
  proof (cases n)
    case (File st)
    with Some assms ensureDirSync_file show ?thesis by fastforce
  next
    case (Dir st es)
    with Some assms ensureDirSync_existing show ?thesis by fastforce
  qed
qed

lemma lookup_None_child: "lookup fs p = None \<Longrightarrow> lookup fs (p @ q) = None"
  by (simp add: lookup_append)

lemma ensureDirSync_listing:
  assumes "ensureDirSync t p fs = Some fs1"
  shows "readdir fs1 p = Some (listing fs p)"
  using ensureDirSync_cases [OF assms]
  by (auto simp: readdir_def listing_def)

lemma ensureDirSync_child:
  assumes "ensureDirSync t p fs = Some fs1"
  shows "lookup fs1 (p @ c # q) = lookup fs (p @ c # q)"
  using ensureDirSync_cases [OF assms]
  by (auto simp: lookup_append)

lemma remove_snoc:
  "plain_name c \<Longrightarrow> remove (p @ [c]) fs = Some (modify_at p (del_entry c) fs)"
  by (simp add: remove_def remove_entry_def plain_name_def)

lemma removeAll_filter: "removeAll x xs = filter (\<lambda>y. y \<noteq> x) xs"
  by (induction xs) auto

text \<open>An upload over the ceiling, step by step.\<close>

lemma upload_single_too_large:
  assumes acc: "videoFileFilter file" and big: "fileSize < byte_count file"
    and dir: "lookup fs1 (userDir_of req e) = Some (Dir st es)"
    and en: "ensureDirSync (now req) (userDir_of req e) fs = Some fs1"
    and nd: "\<forall>st' sub. map_of es (storage_filename (now req) file) \<noteq> Some (Dir st' sub)"
  shows "\<exists>v. upload_single req e (Some file) fs =
           (Returns (Inl (MulterError LIMIT_FILE_SIZE)),
            modify_at (userDir_of req e) (del_entry (storage_filename (now req) file))
              (modify_at (userDir_of req e) (put_entry (storage_filename (now req) file) v) fs1))"
proof -
  let ?U = "userDir_of req e" and ?n = "storage_filename (now req) file"
  have pj: "path_join ?U [?n] = ?U @ [?n]"
    by (simp add: path_join_plain storage_filename_plain)
  have "\<exists>v. write_file (now req) (?U @ [?n]) (min (byte_count file) fileSize) fs1 =
          Some (modify_at ?U (put_entry ?n v) fs1)"
  proof (cases "map_of es ?n")
    case None
    then show ?thesis by (simp add: write_file_def dir) blast
  next
    case (Some v)
    with nd obtain old where "v = File old" by (cases v) auto
    with Some show ?thesis by (simp add: write_file_def dir) blast
  qed
  then obtain v where
    w: "write_file (now req) (?U @ [?n]) (min (byte_count file) fileSize) fs1 =
          Some (modify_at ?U (put_entry ?n v) fs1)" by blast
  have "upload_single req e (Some file) fs =
           (Returns (Inl (MulterError LIMIT_FILE_SIZE)),
            modify_at ?U (del_entry ?n) (modify_at ?U (put_entry ?n v) fs1))"
  proof -
    have m: "min (byte_count file) fileSize = fileSize" using big by simp
    show ?thesis
      using acc big
      by (simp add: upload_single_def getUserDirectory_def en pj w [unfolded m]
          remove_snoc [OF storage_filename_plain] Let_def)
  qed
  then show ?thesis by blast
qed

text \<open>
  Claim C3: the ceiling is 500 MiB (524288000 bytes). For every upload of a file that
  passed the type check and whose byte count exceeds the ceiling, when the partition
  directory can be ensured and the final path is not a directory, the answer is 413;
  afterwards nothing exists at the final path, and the names listed in the partition are
  the names listed before, without the generated name: no partial file remains.
\<close>

theorem C3_payload_too_large:
  assumes acc: "videoFileFilter file" and big: "fileSize < byte_count file"
    and en: "ensureDirSync (now req) (userDir_of req userEmail) fs \<noteq> None"
    and nd: "\<forall>st sub. lookup fs (userDir_of req userEmail @ [storage_filename (now req) file]) \<noteq>
               Some (Dir st sub)"
  shows "fileSize = 524288000 \<and>
         (\<exists>fs'. upload_handler req userEmail (Some file) fs =
                  (Response 413 (Error ''File too large. Maximum size is 500MB.''), fs') \<and>
                lookup fs' (userDir_of req userEmail @ [storage_filename (now req) file]) = None \<and>
                readdir fs' (userDir_of req userEmail) =
                  Some (filter (\<lambda>f. f \<noteq> storage_filename (now req) file)
                          (listing fs (userDir_of req userEmail))))"
proof -
  let ?U = "userDir_of req userEmail" and ?n = "storage_filename (now req) file"
  from en obtain fs1 where en1: "ensureDirSync (now req) ?U fs = Some fs1" by auto
  from ensureDirSync_isDir [OF en1] obtain st es where dir: "lookup fs1 ?U = Some (Dir st es)"
    by blast
  have ls: "map fst es = listing fs ?U"
    using ensureDirSync_listing [OF en1] dir by (simp add: readdir_def)
  have "lookup fs1 (?U @ [?n]) = lookup fs (?U @ [?n])"
    by (rule ensureDirSync_child [OF en1])
  with nd dir have nd1: "\<forall>st' sub. map_of es ?n \<noteq> Some (Dir st' sub)"
    by (simp add: lookup_child)
  from upload_single_too_large [OF acc big dir en1 nd1] obtain v where
    up: "upload_single req userEmail (Some file) fs =
           (Returns (Inl (MulterError LIMIT_FILE_SIZE)),
            modify_at ?U (del_entry ?n) (modify_at ?U (put_entry ?n v) fs1))"
    by blast
  let ?fs' = "modify_at ?U (del_entry ?n) (modify_at ?U (put_entry ?n v) fs1)"
  have after: "lookup ?fs' ?U = Some (Dir st (AList.delete ?n es))"
    by (simp add: lookup_modify_at_self dir AList.delete_update_same)
  have r: "upload_handler req userEmail (Some file) fs =
             (Response 413 (Error ''File too large. Maximum size is 500MB.''), ?fs')"
    by (simp add: upload_handler_def up)
  have gone: "lookup ?fs' (?U @ [?n]) = None"
    using after by (simp add: lookup_child AList.delete_conv')
  have rd: "readdir ?fs' ?U = Some (filter (\<lambda>f. f \<noteq> ?n) (listing fs ?U))"
    using after ls by (simp add: readdir_def AList.delete_keys removeAll_filter)
  have "fileSize = 524288000" by (simp add: fileSize_def)
  with r gone rd show ?thesis by blast
qed

lemma big_file_facts:
  "videoFileFilter big_file" "fileSize < byte_count big_file"
  "storage_filename (now example_req) big_file = ''2023_11_14T22_13_20_123Z.mp4''"
  by (simp_all add: videoFileFilter_def hasValidMimeType_def big_file_def fileSize_def
      storage_filename_def example_timestamp extname_def basename_of_def later_req_facts)

lemma example_alice_ensure:
  "ensureDirSync (now example_req) (userDir_of example_req ''alice@example.com'') example_fs \<noteq> None"
  using example_alice_dir by (simp add: getUserDirectory_def split: option.splits)

lemma example_big_not_dir:
  "\<forall>st sub.
     lookup example_fs
       (userDir_of example_req ''alice@example.com'' @ [storage_filename (now example_req) big_file]) \<noteq>
     Some (Dir st sub)"
  by (simp add: example_alice_userDir big_file_facts lookup_child [OF example_alice_lookup])

theorem C3_payload_too_large_witness:
  "videoFileFilter big_file \<and> fileSize < byte_count big_file \<and>
   (\<exists>fs'. upload_handler example_req ''alice@example.com'' (Some big_file) example_fs =
            (Response 413 (Error ''File too large. Maximum size is 500MB.''), fs') \<and>
          lookup fs' (alice_dir @ [''2023_11_14T22_13_20_123Z.mp4'']) = None \<and>
          readdir fs' alice_dir = Some [''old.mp4'', ''new.MP4'', ''notes.txt''])"
  using C3_payload_too_large [OF big_file_facts(1) big_file_facts(2) example_alice_ensure
      example_big_not_dir]
  by (simp add: big_file_facts example_alice_userDir example_alice_listing)

section \<open>The partition directory\<close>

lemma partition_exists_iff:
  "partition_exists fs req e \<longleftrightarrow> (\<exists>st es. lookup fs (userDir_of req e) = Some (Dir st es))"
  by (auto simp: partition_exists_def split: option.splits node.splits)

lemma partition_exists_put:
  "partition_exists fs req e \<Longrightarrow>
   partition_exists (modify_at (userDir_of req e) (put_entry c v) fs) req e"
  by (auto simp: partition_exists_iff lookup_modify_at_self)

lemma partition_exists_del:
  "partition_exists fs req e \<Longrightarrow>
   partition_exists (modify_at (userDir_of req e) (del_entry c) fs) req e"
  by (auto simp: partition_exists_iff lookup_modify_at_self)

lemma ensureDirSync_partition:
  "ensureDirSync (now req) (userDir_of req e) fs = Some fs1 \<Longrightarrow> partition_exists fs1 req e"
  using ensureDirSync_isDir by (simp add: partition_exists_iff)

lemma delete_video_plain:
  assumes en: "ensureDirSync (now req) (userDir_of req e) fs = Some fs1"
    and pl: "plain_name name"
    and dir: "lookup fs1 (userDir_of req e) = Some (Dir st es)"
  shows "delete_video req e name fs =
     (if map_of es name = None then (Response 404 (Error ''Video not found''), fs1)
      else (Response 200 (Message ''Video deleted successfully''),
            modify_at (userDir_of req e) (del_entry name) fs1))"
  by (simp add: delete_video_def getUserDirectory_def en path_join_plain [OF pl]
      exists_plain [OF pl] lookup_child [OF dir] remove_snoc [OF pl])

lemma list_videos_snd:
  "ensureDirSync (now req) (userDir_of req e) fs = Some fs1 \<Longrightarrow> snd (list_videos req e fs) = fs1"
  by (simp add: list_videos_def getUserDirectory_def split: option.splits)

lemma list_videos_fresh:
  assumes en: "ensureDirSync (now req) (userDir_of req e) fs = Some fs1"
    and none: "lookup fs (userDir_of req e) = None"
  shows "list_videos req e fs = (Response 200 (Videos []), fs1)"
  using ensureDirSync_fresh [OF none en]
  by (simp add: list_videos_def getUserDirectory_def en readdir_def js_sort_def)

lemma list_videos_readable:
  assumes en: "ensureDirSync (now req) (userDir_of req e) fs = Some fs1"
  shows "fst (list_videos req e fs) \<noteq> Response 500 (Error ''Unable to read user directory'')"
proof -
  from ensureDirSync_isDir [OF en] obtain st es where
    "lookup fs1 (userDir_of req e) = Some (Dir st es)" by blast
  then show ?thesis
    by (simp add: list_videos_def getUserDirectory_def en readdir_def split: option.splits)
qed

lemma upload_accepted_partition:
  assumes en: "ensureDirSync (now req) (userDir_of req e) fs = Some fs1"
    and acc: "videoFileFilter file"
  shows "partition_exists (snd (upload_handler req e (Some file) fs)) req e"
proof -
  let ?U = "userDir_of req e" and ?n = "storage_filename (now req) file"
  let ?k = "min (byte_count file) fileSize"
  have pj: "path_join ?U [?n] = ?U @ [?n]"
    by (simp add: path_join_plain storage_filename_plain)
  have p1: "partition_exists fs1 req e" by (rule ensureDirSync_partition [OF en])
  show ?thesis
  proof (cases "write_file (now req) (?U @ [?n]) ?k fs1")
    case None
    then show ?thesis
      using acc p1 by (simp add: upload_handler_def upload_single_def getUserDirectory_def en pj)
  next
    case (Some fs2)
    from write_file_Some [OF Some] obtain s where
      fs2: "fs2 = modify_at ?U (put_entry ?n (File s)) fs1" by blast
    have p2: "partition_exists fs2 req e" unfolding fs2 by (rule partition_exists_put [OF p1])
    have p3: "partition_exists (modify_at ?U (del_entry ?n) fs2) req e"
      by (rule partition_exists_del [OF p2])
    show ?thesis
      using acc p2 p3
      by (simp add: upload_handler_def upload_single_def getUserDirectory_def en pj Some
          remove_snoc [OF storage_filename_plain] Let_def)
  qed
qed

lemma upload_not_accepted:
  "snd (upload_handler req e None fs) = fs"
  "\<not> videoFileFilter file \<Longrightarrow> snd (upload_handler req e (Some file) fs) = fs"
  by (simp_all add: upload_handler_def upload_single_def)

text \<open>
  Claim C10, amended: when \<open>ensureDirSync\<close> does not throw, the catalog read, the
  delete of a plain file name, and the upload of a file that passed the type filter leave
  the partition directory of the caller in existence; the catalog read never answers
  that the directory is unreadable, and for a principal without a partition it answers
  200 with the empty list, as a delete of a plain name answers 404. An upload request
  without a file, or with a file the filter rejects, does not touch the file system.
\<close>

theorem C10_partition_ensured:
  assumes en: "ensureDirSync (now req) (userDir_of req userEmail) fs \<noteq> None"
  shows "partition_exists (snd (list_videos req userEmail fs)) req userEmail \<and>
         fst (list_videos req userEmail fs) \<noteq> Response 500 (Error ''Unable to read user directory'') \<and>
         (\<not> partition_exists fs req userEmail \<longrightarrow>
            fst (list_videos req userEmail fs) = Response 200 (Videos [])) \<and>
         (plain_name name \<longrightarrow>
            partition_exists (snd (delete_video req userEmail name fs)) req userEmail) \<and>
         (plain_name name \<and> \<not> partition_exists fs req userEmail \<longrightarrow>
            fst (delete_video req userEmail name fs) = Response 404 (Error ''Video not found'')) \<and>
         (videoFileFilter file \<longrightarrow>
            partition_exists (snd (upload_handler req userEmail (Some file) fs)) req userEmail) \<and>
         (\<not> videoFileFilter file \<longrightarrow> snd (upload_handler req userEmail (Some file) fs) = fs) \<and>
         snd (upload_handler req userEmail None fs) = fs"
proof -
  let ?U = "userDir_of req userEmail"
  from en obtain fs1 where en1: "ensureDirSync (now req) ?U fs = Some fs1" by auto
  from ensureDirSync_isDir [OF en1] obtain st es where dir: "lookup fs1 ?U = Some (Dir st es)"
    by blast
  have p1: "partition_exists fs1 req userEmail" by (rule ensureDirSync_partition [OF en1])
  have fresh: "lookup fs ?U = None \<and> es = []" if "\<not> partition_exists fs req userEmail"
    using ensureDirSync_cases [OF en1] that dir by (auto simp: partition_exists_iff)
  have a: "partition_exists (snd (list_videos req userEmail fs)) req userEmail"
    using p1 by (simp add: list_videos_snd [OF en1])
  have b: "fst (list_videos req userEmail fs) \<noteq> Response 500 (Error ''Unable to read user directory'')"
    by (rule list_videos_readable [OF en1])
  have c: "\<not> partition_exists fs req userEmail \<longrightarrow>
            fst (list_videos req userEmail fs) = Response 200 (Videos [])"
    using fresh list_videos_fresh [OF en1] by auto
  have d: "plain_name name \<longrightarrow>
            partition_exists (snd (delete_video req userEmail name fs)) req userEmail"
    using p1 partition_exists_del [OF p1, of name]
    by (auto simp: delete_video_plain [OF en1 _ dir])
  have e: "plain_name name \<and> \<not> partition_exists fs req userEmail \<longrightarrow>
            fst (delete_video req userEmail name fs) = Response 404 (Error ''Video not found'')"
    using fresh by (auto simp: delete_video_plain [OF en1 _ dir])
  have f: "videoFileFilter file \<longrightarrow>
            partition_exists (snd (upload_handler req userEmail (Some file) fs)) req userEmail"
    using upload_accepted_partition [OF en1] by blast
  show ?thesis using a b c d e f upload_not_accepted by blast
qed

lemma carol_safe: "safeEmail ''carol@example.com'' = ''carol_example_com''"
  by (simp add: safeEmail_def is_upper_def is_lower_def is_digit_def)

lemma example_carol_userDir:
  "userDir_of example_req ''carol@example.com'' =
     [''opt'', ''nitroshare'', ''uploads'', ''carol_example_com'']"
  by (simp add: userDir_of_eq carol_safe example_req_def)

lemma example_carol_absent: "\<not> partition_exists example_fs example_req ''carol@example.com''"
  by (simp add: partition_exists_def example_carol_userDir example_fs_def)

lemma example_carol_ensure:
  "ensureDirSync (now example_req) (userDir_of example_req ''carol@example.com'') example_fs \<noteq> None"
  by (simp add: example_carol_userDir example_fs_def)

text \<open>
  Claim C10, as stated, fails: an upload request that carries no file, and one whose file
  the filter rejects, are answered 400 and leave the file system as it was, so a
  principal without a partition directory has none afterwards either.
\<close>

theorem C10_counterexample:
  "\<not> partition_exists example_fs example_req ''carol@example.com'' \<and>
   upload_handler example_req ''carol@example.com'' None example_fs =
     (Response 400 (Error ''No video file uploaded''), example_fs) \<and>
   upload_handler example_req ''carol@example.com'' (Some text_file) example_fs =
     (Response 400 (Error (filter_message text_file)), example_fs) \<and>
   \<not> partition_exists (snd (upload_handler example_req ''carol@example.com'' None example_fs))
        example_req ''carol@example.com''"
  using example_carol_absent text_file_rejected
  by (simp add: upload_handler_def upload_single_def)

theorem C10_partition_ensured_witness:
  "ensureDirSync (now example_req) (userDir_of example_req ''carol@example.com'') example_fs \<noteq> None \<and>
   \<not> partition_exists example_fs example_req ''carol@example.com'' \<and>
   fst (list_videos example_req ''carol@example.com'' example_fs) = Response 200 (Videos []) \<and>
   partition_exists (snd (list_videos example_req ''carol@example.com'' example_fs))
     example_req ''carol@example.com'' \<and>
   fst (delete_video example_req ''carol@example.com'' ''clip.mp4'' example_fs) =
     Response 404 (Error ''Video not found'') \<and>
   partition_exists (snd (delete_video example_req ''carol@example.com'' ''clip.mp4'' example_fs))
     example_req ''carol@example.com'' \<and>
   partition_exists (snd (upload_handler example_req ''carol@example.com'' (Some clip_a) example_fs))
     example_req ''carol@example.com''"
proof -
  have pl: "plain_name ''clip.mp4''" by (simp add: plain_name_def)
  note th = C10_partition_ensured [OF example_carol_ensure, of "''clip.mp4''" clip_a]
  show ?thesis
    using th pl example_carol_absent example_carol_ensure example_files_accepted(2) by blast
qed

lemma traversal_path:
  "path_join alice_dir [''../bob_example_com/clip.mp4''] = bob_clip"
  by (simp add: path_join_def join_step_def ends_with_slash_def alice_dir_def bob_clip_def)

lemma example_bob_clip:
  "lookup example_fs bob_clip = Some (File \<lparr>birthtime = 1699999500000, bytes = 30\<rparr>)"
  by (simp add: example_fs_def bob_clip_def)

lemma example_bob_dir:
  "lookup example_fs (butlast bob_clip) =
     Some (Dir \<lparr>birthtime = 4000, bytes = 4096\<rparr>
       [(''clip.mp4'', File \<lparr>birthtime = 1699999500000, bytes = 30\<rparr>)])"
  by (simp add: example_fs_def bob_clip_def)

lemma traversal_delete_eq:
  "traversal_delete =
     (Response 200 (Message ''Video deleted successfully''),
      modify_at (butlast bob_clip) (del_entry (last bob_clip)) example_fs)"
proof -
  have ex: "existsSync example_fs bob_clip"
    by (simp add: existsSync_def resolve_def bob_clip_def example_fs_def)
  have rm: "remove bob_clip example_fs =
      Some (modify_at (butlast bob_clip) (del_entry (last bob_clip)) example_fs)"
    by (simp add: remove_def remove_entry_def bob_clip_def)
  show ?thesis
    by (simp add: traversal_delete_def delete_video_def example_alice_dir traversal_path ex rm)
qed

text \<open>
  Claim C9, evaluated at a file name with a slash in it: the name
  \<open>../bob_example_com/clip.mp4\<close> is not the name of an entry of the partition of
  \<open>alice@example.com\<close>, and the delete is answered 200 and removes the file
  \<open>clip.mp4\<close> of the partition \<open>bob_example_com\<close>.
\<close>

theorem C9_delete_outside_partition:
  "readdir example_fs alice_dir = Some [''old.mp4'', ''new.MP4'', ''notes.txt''] \<and>
   lookup example_fs bob_clip = Some (File \<lparr>birthtime = 1699999500000, bytes = 30\<rparr>) \<and>
   fst traversal_delete = Response 200 (Message ''Video deleted successfully'') \<and>
   lookup (snd traversal_delete) bob_clip = None \<and>
   readdir (snd traversal_delete) (butlast bob_clip) = Some []"
proof -
  have b: "bob_clip = butlast bob_clip @ [last bob_clip]" by (simp add: bob_clip_def)
  have l: "last bob_clip = ''clip.mp4''" by (simp add: bob_clip_def)
  have "lookup (snd traversal_delete) (butlast bob_clip @ [last bob_clip]) = None"
    by (simp add: traversal_delete_eq lookup_modify_at example_bob_dir l)
  with b have gone: "lookup (snd traversal_delete) bob_clip = None" by simp
  have "readdir (snd traversal_delete) (butlast bob_clip) = Some []"
    by (simp add: traversal_delete_eq readdir_def lookup_modify_at_self example_bob_dir l)
  then show ?thesis
    using gone by (simp add: traversal_delete_eq example_bob_clip readdir_def example_alice_lookup)
qed

section \<open>Delete of a plain name\<close>

lemma set_js_sort: "set (js_sort cmp xs) = set xs"
  using mset_js_sort [of cmp xs] by (metis set_mset_mset)

lemma wf_node_delete:
  assumes "wf_node (Dir st es)"
  shows "wf_node (Dir st (AList.delete c es))"
proof -
  from assms have "distinct (map fst (AList.delete c es))"
    by (simp add: AList.distinct_delete)
  moreover have "set (AList.delete c es) \<subseteq> set es"
    by (auto simp: AList.delete_eq)
  ultimately show ?thesis using assms by (auto simp: list_all_iff)
qed

text \<open>
  The delete of a plain file name (not empty, not \<open>.\<close> or \<open>..\<close>, without a slash):
  a name that is not listed in the partition is answered 404, and the file system is
  what \<open>ensureDirSync\<close> left (unchanged when the partition existed); a listed name is
  answered 200, nothing exists under it afterwards, the other names stay listed, and the
  next catalog does not hold it.
\<close>

theorem delete_plain_name:
  assumes wf: "wf_node fs"
    and dn: "list_all plain_name (dirname req)"
    and en: "ensureDirSync (now req) (userDir_of req userEmail) fs = Some fs1"
    and pl: "plain_name name"
  shows "(name \<notin> set (listing fs (userDir_of req userEmail)) \<longrightarrow>
            delete_video req userEmail name fs = (Response 404 (Error ''Video not found''), fs1)) \<and>
         (partition_exists fs req userEmail \<longrightarrow> fs1 = fs) \<and>
         (name \<in> set (listing fs (userDir_of req userEmail)) \<longrightarrow>
            (\<exists>fs2 vs.
               delete_video req userEmail name fs =
                 (Response 200 (Message ''Video deleted successfully''), fs2) \<and>
               lookup fs2 (userDir_of req userEmail @ [name]) = None \<and>
               listing fs2 (userDir_of req userEmail) =
                 filter (\<lambda>f. f \<noteq> name) (listing fs (userDir_of req userEmail)) \<and>
               list_videos req userEmail fs2 = (Response 200 (Videos vs), fs2) \<and>
               name \<notin> filename ` set vs))"
proof -
  let ?U = "userDir_of req userEmail"
  from ensureDirSync_isDir [OF en] obtain st es where dir: "lookup fs1 ?U = Some (Dir st es)"
    by blast
  have ls: "listing fs ?U = map fst es"
    using ensureDirSync_listing [OF en] dir by (simp add: readdir_def)
  have mem: "name \<in> set (listing fs ?U) \<longleftrightarrow> map_of es name \<noteq> None"
    by (simp add: ls map_of_eq_None_iff)
  have del: "delete_video req userEmail name fs =
     (if map_of es name = None then (Response 404 (Error ''Video not found''), fs1)
      else (Response 200 (Message ''Video deleted successfully''),
            modify_at ?U (del_entry name) fs1))"
    by (rule delete_video_plain [OF en pl dir])
  have same: "partition_exists fs req userEmail \<longrightarrow> fs1 = fs"
    using ensureDirSync_cases [OF en] by (auto simp: partition_exists_iff)
  have wf1: "wf_node fs1"
    by (rule ensureDirSync_wf [OF wf userDir_of_plain [OF dn] en])
  let ?fs2 = "modify_at ?U (del_entry name) fs1"
  have dir2: "lookup ?fs2 ?U = Some (Dir st (AList.delete name es))"
    by (simp add: lookup_modify_at_self dir)
  have wfd2: "wf_node (Dir st (AList.delete name es))"
    using wf_lookup [OF wf1 dir] by (rule wf_node_delete)
  have g2: "getUserDirectory req userEmail ?fs2 = Some (?U, ?fs2)"
    by (simp add: getUserDirectory_def ensureDirSync_existing [OF dir2])
  let ?vs = "js_sort most_recent_first
               (map (entry_summary req userEmail)
                  (filter (\<lambda>e. is_video_name (fst e)) (AList.delete name es)))"
  have cat: "list_videos req userEmail ?fs2 = (Response 200 (Videos ?vs), ?fs2)"
    by (rule list_videos_listing [OF dir2 wfd2 g2])
  have notin: "name \<notin> filename ` set ?vs"
    by (auto simp: set_js_sort entry_summary_def AList.delete_eq)
  have gone: "lookup ?fs2 (?U @ [name]) = None"
    by (simp add: lookup_child [OF dir2] AList.delete_conv')
  have "listing ?fs2 ?U = removeAll name (map fst es)"
    by (simp add: listing_def readdir_def dir2 AList.delete_keys)
  then have ls2: "listing ?fs2 ?U = filter (\<lambda>f. f \<noteq> name) (listing fs ?U)"
    by (simp only: removeAll_filter ls)
  show ?thesis
    using del mem same cat notin gone ls2 by auto
qed

lemma example_alice_ensure_eq:
  "ensureDirSync (now example_req) (userDir_of example_req ''alice@example.com'') example_fs =
     Some example_fs"
  using example_alice_dir by (simp add: getUserDirectory_def split: option.splits)

theorem delete_plain_name_witness:
  "plain_name ''old.mp4'' \<and>
   ''old.mp4'' \<in> set (listing example_fs alice_dir) \<and>
   (\<exists>fs2 vs.
      delete_video example_req ''alice@example.com'' ''old.mp4'' example_fs =
        (Response 200 (Message ''Video deleted successfully''), fs2) \<and>
      listing fs2 alice_dir = [''new.MP4'', ''notes.txt''] \<and>
      list_videos example_req ''alice@example.com'' fs2 = (Response 200 (Videos vs), fs2) \<and>
      ''old.mp4'' \<notin> filename ` set vs)"
proof -
  have pl: "plain_name ''old.mp4''" by (simp add: plain_name_def)
  note th = delete_plain_name [OF example_wf example_dirname_plain example_alice_ensure_eq pl]
  have m: "''old.mp4'' \<in> set (listing example_fs alice_dir)"
    by (simp add: example_alice_listing)
  from th m show ?thesis
    using pl by (simp add: example_alice_userDir example_alice_listing) blast
qed

section \<open>The cleanup job: the two loops\<close>

lemma modify_at_id: "modify_at p (\<lambda>n. n) n0 = n0"
proof (cases "lookup n0 p")
  case None
  then show ?thesis by (rule modify_at_missing)
next
  case (Some d)
  then show ?thesis by (rule modify_at_same) simp
qed

lemma foldl_modify_at:
  "foldl (\<lambda>fs x. modify_at p (\<lambda>n. g n x) fs) fs xs = modify_at p (\<lambda>n. foldl g n xs) fs"
proof (induction xs arbitrary: fs)
  case Nil
  then show ?case by (simp add: modify_at_id)
next
  case (Cons x xs)
  then show ?case by (simp add: modify_at_compose)
qed

lemma foldl_agree:
  "(\<And>a x. x \<in> set xs \<Longrightarrow> f a x = g a x) \<Longrightarrow> foldl f a xs = foldl g a xs"
  by (induction xs arbitrary: a) auto

text \<open>The inner loop: one file.\<close>

lemma cleanup_file_step:
  assumes pl: "plain_name f"
  shows "cleanup_file c P fs f = modify_at P (\<lambda>n. file_step c n f) fs"
proof (cases "lookup fs P")
  case None
  then show ?thesis
    by (simp add: cleanup_file_def path_join_plain [OF pl] lookup_None_child modify_at_missing)
next
  case (Some d)
  show ?thesis
  proof (cases d)
    case (File st)
    with Some have "lookup fs (P @ [f]) = None" by (simp add: lookup_append)
    moreover from Some File have "modify_at P (\<lambda>n. file_step c n f) fs = fs"
      by (intro modify_at_same [where d = "File st"]) simp_all
    ultimately show ?thesis by (simp add: cleanup_file_def path_join_plain [OF pl])
  next
    case (Dir st es)
    with Some have dir: "lookup fs P = Some (Dir st es)" by simp
    show ?thesis
    proof (cases "map_of es f")
      case None
      with dir have "modify_at P (\<lambda>n. file_step c n f) fs = fs"
        by (intro modify_at_same [where d = "Dir st es"]) simp_all
      with None dir show ?thesis
        by (simp add: cleanup_file_def path_join_plain [OF pl] lookup_child)
    next
      case (Some n)
      show ?thesis
      proof (cases "expired c n")
        case True
        have "modify_at P (del_entry f) fs = modify_at P (\<lambda>n. file_step c n f) fs"
          using dir Some True by (intro modify_at_cong [where d = "Dir st es"]) simp_all
        with Some True dir show ?thesis
          by (simp add: cleanup_file_def path_join_plain [OF pl] lookup_child
              remove_snoc [OF pl] expired_def)
      next
        case False
        with dir Some have "modify_at P (\<lambda>n. file_step c n f) fs = fs"
          by (intro modify_at_same [where d = "Dir st es"]) simp_all
        with Some False dir show ?thesis
          by (simp add: cleanup_file_def path_join_plain [OF pl] lookup_child expired_def)
      qed
    qed
  qed
qed

lemma foldl_file_step_Dir:
  assumes "distinct (map fst es)"
  shows "foldl (file_step c) (Dir st es) ks =
           Dir st (filter (\<lambda>e. \<not> (fst e \<in> set ks \<and> expired c (snd e))) es)"
  using assms
proof (induction ks arbitrary: es)
  case Nil
  then show ?case by simp
next
  case (Cons k ks)
  show ?case
  proof (cases "map_of es k")
    case None
    then have "k \<notin> fst ` set es" by (simp add: map_of_eq_None_iff)
    then have "filter (\<lambda>e. \<not> (fst e \<in> set (k # ks) \<and> expired c (snd e))) es =
               filter (\<lambda>e. \<not> (fst e \<in> set ks \<and> expired c (snd e))) es"
      by (intro filter_cong) auto
    with None Cons show ?thesis by simp
  next
    case (Some n)
    then have mem: "(k, n) \<in> set es" by (rule map_of_SomeD)
    have uniq: "snd e = n" if "e \<in> set es" "fst e = k" for e
      using that mem Cons.prems by (metis eq_key_imp_eq_value prod.collapse)
    show ?thesis
    proof (cases "expired c n")
      case True
      have d: "distinct (map fst (AList.delete k es))"
        using Cons.prems by (simp add: AList.distinct_delete)
      have "filter (\<lambda>e. \<not> (fst e \<in> set ks \<and> expired c (snd e))) (AList.delete k es) =
            filter (\<lambda>e. \<not> (fst e \<in> set (k # ks) \<and> expired c (snd e))) es"
        unfolding AList.delete_eq filter_filter
        using True uniq by (intro filter_cong) auto
      with Some True Cons.IH [OF d] show ?thesis by simp
    next
      case False
      have "filter (\<lambda>e. \<not> (fst e \<in> set ks \<and> expired c (snd e))) es =
            filter (\<lambda>e. \<not> (fst e \<in> set (k # ks) \<and> expired c (snd e))) es"
        using False uniq by (intro filter_cong) auto
      with Some False Cons.IH [OF Cons.prems] show ?thesis by simp
    qed
  qed
qed

lemma foldl_file_step:
  assumes "wf_node (Dir st es)"
  shows "foldl (file_step c) (Dir st es) (map fst es) = sweep_partition c (Dir st es)"
proof -
  from assms have "distinct (map fst es)" by simp
  then have "foldl (file_step c) (Dir st es) (map fst es) =
           Dir st (filter (\<lambda>e. \<not> (fst e \<in> set (map fst es) \<and> expired c (snd e))) es)"
    by (rule foldl_file_step_Dir)
  also have "filter (\<lambda>e. \<not> (fst e \<in> set (map fst es) \<and> expired c (snd e))) es =
             filter (\<lambda>e. \<not> expired c (snd e)) es"
    by (intro filter_cong) auto
  finally show ?thesis by simp
qed

lemma wf_modify_at:
  assumes "wf_node n" and "\<And>d. wf_node d \<Longrightarrow> wf_node (f d)"
  shows "wf_node (modify_at p f n)"
  using assms(1)
proof (induction p arbitrary: n)
  case Nil
  then show ?case by (simp add: assms(2))
next
  case (Cons c cs)
  show ?case
  proof (cases n)
    case (File st)
    then show ?thesis by simp
  next
    case (Dir st es)
    show ?thesis
    proof (cases "map_of es c")
      case None
      with Dir Cons.prems show ?thesis by simp
    next
      case (Some child)
      then have mem: "(c, child) \<in> set es" by (rule map_of_SomeD)
      with Dir Cons.prems have "wf_node child" and pc: "plain_name c"
        by (auto simp: list_all_iff)
      then have "wf_node (modify_at cs f child)" by (intro Cons.IH)
      with Dir Cons.prems Some pc show ?thesis
        by (auto simp: AList.distinct_update intro!: list_all_update)
    qed
  qed
qed

lemma wf_sweep_partition: "wf_node d \<Longrightarrow> wf_node (sweep_partition c d)"
  by (cases d) (auto simp: list_all_iff distinct_map_filter)

lemma wf_dir_step: "wf_node d \<Longrightarrow> wf_node (dir_step c d u)"
proof (cases d)
  case (File st)
  then show ?thesis by simp
next
  case (Dir st ps)
  assume wf: "wf_node d"
  show ?thesis
  proof (cases "map_of ps u")
    case None
    with Dir wf show ?thesis by simp
  next
    case (Some p)
    then have mem: "(u, p) \<in> set ps" by (rule map_of_SomeD)
    with Dir wf have "wf_node p" and "plain_name u" by (auto simp: list_all_iff)
    with Dir wf Some show ?thesis
      by (auto simp: AList.distinct_update wf_sweep_partition intro!: list_all_update)
  qed
qed

text \<open>The inner loop, over the names of a partition.\<close>

lemma cleanup_files:
  assumes dir: "lookup fs P = Some (Dir st es)" and wf: "wf_node (Dir st es)"
  shows "foldl (cleanup_file c P) fs (map fst es) = modify_at P (sweep_partition c) fs"
proof -
  have pl: "plain_name f" if "f \<in> set (map fst es)" for f
    using that wf by (auto simp: list_all_iff)
  have "foldl (cleanup_file c P) fs (map fst es) =
        foldl (\<lambda>fs f. modify_at P (\<lambda>n. file_step c n f) fs) fs (map fst es)"
    by (rule foldl_agree) (simp add: cleanup_file_step pl)
  also have "\<dots> = modify_at P (\<lambda>n. foldl (file_step c) n (map fst es)) fs"
    by (rule foldl_modify_at)
  also have "\<dots> = modify_at P (sweep_partition c) fs"
    using dir by (rule modify_at_cong) (rule foldl_file_step [OF wf])
  finally show ?thesis .
qed

text \<open>The outer loop: one entry of \<open>uploads\<close>.\<close>

lemma cleanup_dir_step:
  assumes pl: "plain_name u" and wf: "wf_node fs"
  shows "cleanup_dir c U fs u = modify_at U (\<lambda>n. dir_step c n u) fs"
proof (cases "lookup fs U")
  case None
  then show ?thesis
    by (simp add: cleanup_dir_def path_join_plain [OF pl] lookup_None_child modify_at_missing)
next
  case (Some d)
  show ?thesis
  proof (cases d)
    case (File st)
    with Some have "lookup fs (U @ [u]) = None" by (simp add: lookup_append)
    moreover from Some File have "modify_at U (\<lambda>n. dir_step c n u) fs = fs"
      by (intro modify_at_same [where d = "File st"]) simp_all
    ultimately show ?thesis by (simp add: cleanup_dir_def path_join_plain [OF pl])
  next
    case (Dir st ps)
    with Some have dir: "lookup fs U = Some (Dir st ps)" by simp
    show ?thesis
    proof (cases "map_of ps u")
      case None
      with dir have "modify_at U (\<lambda>n. dir_step c n u) fs = fs"
        by (intro modify_at_same [where d = "Dir st ps"]) simp_all
      with None dir show ?thesis
        by (simp add: cleanup_dir_def path_join_plain [OF pl] lookup_child)
    next
      case (Some p)
      with dir have lp: "lookup fs (U @ [u]) = Some p" by (simp add: lookup_child)
      show ?thesis
      proof (cases p)
        case (File s)
        with dir Some have "modify_at U (\<lambda>n. dir_step c n u) fs = fs"
          by (intro modify_at_same [where d = "Dir st ps"]) (simp_all add: AList.update_triv)
        with File lp show ?thesis
          by (simp add: cleanup_dir_def path_join_plain [OF pl])
      next
        case (Dir s es)
        with lp have lpd: "lookup fs (U @ [u]) = Some (Dir s es)" by simp
        have wfp: "wf_node (Dir s es)" by (rule wf_lookup [OF wf lpd])
        have "cleanup_dir c U fs u = foldl (cleanup_file c (U @ [u])) fs (map fst es)"
          by (simp add: cleanup_dir_def path_join_plain [OF pl] lpd readdir_def)
        also have "\<dots> = modify_at (U @ [u]) (sweep_partition c) fs"
          by (rule cleanup_files [OF lpd wfp])
        also have "\<dots> = modify_at U (modify_at [u] (sweep_partition c)) fs"
          by (rule modify_at_append)
        also have "\<dots> = modify_at U (\<lambda>n. dir_step c n u) fs"
          using dir by (rule modify_at_cong) (simp add: Some)
        finally show ?thesis .
      qed
    qed
  qed
qed

lemma cleanup_dirs:
  assumes "wf_node fs" and "list_all plain_name us"
  shows "foldl (cleanup_dir c U) fs us = modify_at U (\<lambda>n. foldl (dir_step c) n us) fs"
  using assms
proof (induction us arbitrary: fs)
  case Nil
  then show ?case by (simp add: modify_at_id)
next
  case (Cons u us)
  from Cons.prems have pl: "plain_name u" and rest: "list_all plain_name us" by simp_all
  let ?fs' = "modify_at U (\<lambda>n. dir_step c n u) fs"
  have step: "cleanup_dir c U fs u = ?fs'"
    by (rule cleanup_dir_step [OF pl Cons.prems(1)])
  have wf': "wf_node ?fs'"
    using Cons.prems(1) by (rule wf_modify_at) (rule wf_dir_step)
  show ?case
    by (simp add: step Cons.IH [OF wf' rest] modify_at_compose)
qed

lemma foldl_dir_step_Dir:
  assumes "distinct (map fst ps)" and "distinct ks"
  shows "foldl (dir_step c) (Dir st ps) ks =
           Dir st (map (\<lambda>p. if fst p \<in> set ks then (fst p, sweep_partition c (snd p)) else p) ps)"
  using assms
proof (induction ks arbitrary: ps)
  case Nil
  then show ?case by (simp add: map_idI)
next
  case (Cons k ks)
  from Cons.prems have kk: "k \<notin> set ks" and dk: "distinct ks" by simp_all
  show ?case
  proof (cases "map_of ps k")
    case None
    then have "k \<notin> fst ` set ps" by (simp add: map_of_eq_None_iff)
    then have "map (\<lambda>p. if fst p \<in> set (k # ks) then (fst p, sweep_partition c (snd p)) else p) ps =
               map (\<lambda>p. if fst p \<in> set ks then (fst p, sweep_partition c (snd p)) else p) ps"
      by (intro map_cong) auto
    with None Cons.IH [OF Cons.prems(1) dk] show ?thesis by simp
  next
    case (Some d)
    then have mem: "(k, d) \<in> set ps" by (rule map_of_SomeD)
    let ?ps' = "AList.update k (sweep_partition c d) ps"
    have upd: "?ps' = map (\<lambda>p. if fst p = k then (k, sweep_partition c d) else p) ps"
      using Cons.prems(1) mem
    proof (induction ps)
      case Nil
      then show ?case by simp
    next
      case (Cons a ps)
      then show ?case
        by (cases a) (auto intro!: map_idI [symmetric] simp: image_iff)
    qed
    have uniq: "snd p = d" if "p \<in> set ps" "fst p = k" for p
      using that mem Cons.prems(1) by (metis eq_key_imp_eq_value prod.collapse)
    have d': "distinct (map fst ?ps')"
      using Cons.prems(1) by (simp add: AList.distinct_update)
    have "map (\<lambda>p. if fst p \<in> set ks then (fst p, sweep_partition c (snd p)) else p) ?ps' =
          map (\<lambda>p. if fst p \<in> set (k # ks) then (fst p, sweep_partition c (snd p)) else p) ps"
      unfolding upd map_map using kk uniq by (intro map_cong) auto
    with Some Cons.IH [OF d' dk] show ?thesis by simp
  qed
qed

lemma foldl_dir_step:
  assumes "wf_node (Dir st ps)"
  shows "foldl (dir_step c) (Dir st ps) (map fst ps) = sweep_uploads c (Dir st ps)"
proof -
  from assms have d: "distinct (map fst ps)" by simp
  have "foldl (dir_step c) (Dir st ps) (map fst ps) =
          Dir st (map (\<lambda>p. if fst p \<in> set (map fst ps)
                            then (fst p, sweep_partition c (snd p)) else p) ps)"
    by (rule foldl_dir_step_Dir [OF d d])
  also have "map (\<lambda>p. if fst p \<in> set (map fst ps)
                            then (fst p, sweep_partition c (snd p)) else p) ps =
             map (\<lambda>p. (fst p, sweep_partition c (snd p))) ps"
    by (intro map_cong) auto
  finally show ?thesis by simp
qed

text \<open>The job does what the sweep of section 4.6 says, on the node of \<open>uploads\<close>.\<close>

lemma cleanup_job_sweep:
  assumes wf: "wf_node fs"
  shows "cleanup_job req fs =
           modify_at (dirname req @ [''uploads''])
             (sweep_uploads (now req - 86400000)) fs"
proof -
  let ?U = "dirname req @ [''uploads'']" and ?c = "now req - 86400000"
  have U: "path_join (dirname req) [''uploads''] = ?U"
    by (rule path_join_plain) (simp add: plain_name_def)
  show ?thesis
  proof (cases "lookup fs ?U")
    case None
    then show ?thesis
      by (simp add: cleanup_job_def U readdir_def modify_at_missing)
  next
    case (Some d)
    show ?thesis
    proof (cases d)
      case (File st)
      with Some have "modify_at ?U (sweep_uploads ?c) fs = fs"
        by (intro modify_at_same [where d = "File st"]) simp_all
      with Some File show ?thesis by (simp add: cleanup_job_def U readdir_def)
    next
      case (Dir st ps)
      with Some have dir: "lookup fs ?U = Some (Dir st ps)" by simp
      have wfd: "wf_node (Dir st ps)" by (rule wf_lookup [OF wf dir])
      then have pl: "list_all plain_name (map fst ps)" by (auto simp: list_all_iff)
      have "cleanup_job req fs = foldl (cleanup_dir ?c ?U) fs (map fst ps)"
        by (simp add: cleanup_job_def U readdir_def dir)
      also have "\<dots> = modify_at ?U (\<lambda>n. foldl (dir_step ?c) n (map fst ps)) fs"
        by (rule cleanup_dirs [OF wf pl])
      also have "\<dots> = modify_at ?U (sweep_uploads ?c) fs"
        using dir by (rule modify_at_cong) (rule foldl_dir_step [OF wfd])
      finally show ?thesis .
    qed
  qed
qed

section \<open>The cleanup job: what a run does\<close>

lemma map_of_map_snd:
  "map_of (map (\<lambda>p. (fst p, h (snd p))) ps) k = map_option h (map_of ps k)"
  by (induction ps) auto

lemma map_of_filter_snd:
  assumes "distinct (map fst es)"
  shows "map_of (filter (\<lambda>e. P (snd e)) es) k =
           (case map_of es k of None \<Rightarrow> None | Some n \<Rightarrow> if P n then Some n else None)"
  using assms
proof (induction es)
  case Nil
  then show ?case by simp
next
  case (Cons e es)
  then have "fst e \<notin> fst ` set es" by simp
  then have "map_of (filter (\<lambda>e. P (snd e)) es) (fst e) = None"
    by (auto simp: map_of_eq_None_iff)
  with Cons show ?case by (cases e) (auto split: option.splits)
qed

lemma lookup_sweep_uploads:
  "lookup (sweep_uploads c d) [u] = map_option (sweep_partition c) (lookup d [u])"
  by (cases d) (auto simp: map_of_map_snd split: option.splits)

lemma lookup_sweep_partition:
  assumes "wf_node d"
  shows "lookup (sweep_partition c d) (f # q) =
           (case lookup d [f] of
              None \<Rightarrow> None
            | Some n \<Rightarrow> if expired c n then None else lookup n q)"
proof (cases d)
  case (File st)
  then show ?thesis by simp
next
  case (Dir st es)
  with assms have "distinct (map fst es)" by simp
  from map_of_filter_snd [OF this, of "\<lambda>n. \<not> expired c n" f] Dir show ?thesis
    by (auto split: option.splits)
qed

lemma lookup_modify_at_other:
  "\<not> prefix p q \<Longrightarrow> \<not> prefix q p \<Longrightarrow> lookup (modify_at p f n) q = lookup n q"
proof (induction p arbitrary: q n)
  case Nil
  then show ?case by simp
next
  case (Cons c cs)
  show ?case
  proof (cases q)
    case Nil
    with Cons.prems show ?thesis by simp
  next
    case (Cons c' cs')
    show ?thesis
    proof (cases n)
      case (File st)
      then show ?thesis by simp
    next
      case (Dir st es)
      show ?thesis
      proof (cases "map_of es c")
        case None
        with Dir show ?thesis by simp
      next
        case (Some child)
        show ?thesis
        proof (cases "c' = c")
          case True
          with Cons.prems Cons have "\<not> prefix cs cs'" "\<not> prefix cs' cs" by simp_all
          then have "lookup (modify_at cs f child) cs' = lookup child cs'" by (rule Cons.IH)
          with Dir Some True Cons show ?thesis by (simp add: AList.update_conv')
        next
          case False
          with Dir Some Cons show ?thesis by (simp add: AList.update_conv')
        qed
      qed
    qed
  qed
qed

lemma sweep_partition_idem: "sweep_partition c (sweep_partition c d) = sweep_partition c d"
  by (cases d) auto

lemma sweep_uploads_idem: "sweep_uploads c (sweep_uploads c d) = sweep_uploads c d"
  by (cases d) (auto simp: sweep_partition_idem)

lemma wf_sweep_uploads: "wf_node d \<Longrightarrow> wf_node (sweep_uploads c d)"
  by (cases d) (auto simp: list_all_iff wf_sweep_partition o_def)

text \<open>
  Claim C4: on a well-formed file system, one run of the cleanup job leaves every entry of
  \<open>uploads\<close> as the same node with, when it is a directory (a partition), exactly the
  entries gone whose birth time is before now minus 24 hours: under every partition, an
  entry that old is not found afterwards, and a younger one is found as it was, with
  all it holds. Paths beside \<open>uploads\<close> are as they were. A second run on the
  result, at the same time, changes nothing.
\<close>

theorem C4_retention_sweep:
  assumes wf: "wf_node fs"
  shows "(\<forall>u. lookup (cleanup_job req fs) (dirname req @ [''uploads'', u]) =
               map_option (sweep_partition (now req - 24 * 60 * 60 * 1000))
                 (lookup fs (dirname req @ [''uploads'', u]))) \<and>
         (\<forall>u f q. lookup (cleanup_job req fs) (dirname req @ ''uploads'' # u # f # q) =
               (case lookup fs (dirname req @ [''uploads'', u, f]) of
                  None \<Rightarrow> None
                | Some n \<Rightarrow>
                    if birthtime (stats_of n) < now req - 24 * 60 * 60 * 1000 then None
                    else lookup n q)) \<and>
         (\<forall>p. \<not> prefix (dirname req @ [''uploads'']) p \<and>
               \<not> prefix p (dirname req @ [''uploads'']) \<longrightarrow>
               lookup (cleanup_job req fs) p = lookup fs p) \<and>
         cleanup_job req (cleanup_job req fs) = cleanup_job req fs"
proof -
  let ?U = "dirname req @ [''uploads'']" and ?c = "now req - 24 * 60 * 60 * 1000"
  have c: "?c = now req - 86400000" by simp
  have job: "cleanup_job req fs = modify_at ?U (sweep_uploads ?c) fs"
    unfolding c by (rule cleanup_job_sweep [OF wf])
  have part: "lookup (cleanup_job req fs) (?U @ [u]) =
                map_option (sweep_partition ?c) (lookup fs (?U @ [u]))" for u
  proof -
    have a: "lookup fs (?U @ [u]) =
               (case lookup fs ?U of None \<Rightarrow> None | Some d \<Rightarrow> lookup d [u])"
      by (rule lookup_append)
    have b: "lookup (modify_at ?U (sweep_uploads ?c) fs) (?U @ [u]) =
               (case lookup fs ?U of None \<Rightarrow> None | Some d \<Rightarrow> lookup (sweep_uploads ?c d) [u])"
      by (rule lookup_modify_at)
    show ?thesis
      unfolding job a b by (cases "lookup fs ?U") (simp_all only: lookup_sweep_uploads option.case option.map)
  qed
  have entry: "lookup (cleanup_job req fs) ((?U @ [u]) @ f # q) =
               (case lookup fs ((?U @ [u]) @ [f]) of
                  None \<Rightarrow> None
                | Some n \<Rightarrow> if birthtime (stats_of n) < ?c then None else lookup n q)" for u f q
  proof -
    have a: "lookup fs ((?U @ [u]) @ [f]) =
               (case lookup fs (?U @ [u]) of None \<Rightarrow> None | Some d \<Rightarrow> lookup d [f])"
      by (rule lookup_append)
    have b: "lookup (cleanup_job req fs) ((?U @ [u]) @ f # q) =
               (case lookup (cleanup_job req fs) (?U @ [u]) of
                  None \<Rightarrow> None
                | Some d \<Rightarrow> lookup d (f # q))"
      by (rule lookup_append)
    show ?thesis
    proof (cases "lookup fs (?U @ [u])")
      case None
      then show ?thesis unfolding a b part by (simp only: option.case option.map)
    next
      case (Some d)
      then have "wf_node d" by (rule wf_lookup [OF wf])
      from lookup_sweep_partition [OF this, of ?c f q] show ?thesis
        unfolding a b part Some by (simp only: option.case option.map expired_def)
    qed
  qed
  have out: "lookup (cleanup_job req fs) p = lookup fs p"
    if "\<not> prefix ?U p" "\<not> prefix p ?U" for p
    unfolding job using that by (rule lookup_modify_at_other)
  have wf': "wf_node (cleanup_job req fs)"
    unfolding job using wf by (rule wf_modify_at) (rule wf_sweep_uploads)
  have "cleanup_job req (cleanup_job req fs) =
          modify_at ?U (sweep_uploads ?c) (modify_at ?U (sweep_uploads ?c) fs)"
    using cleanup_job_sweep [OF wf', of req] job by (simp only: c)
  then have idem: "cleanup_job req (cleanup_job req fs) = cleanup_job req fs"
    by (simp add: modify_at_compose sweep_uploads_idem job)
  from part have "\<forall>u. lookup (cleanup_job req fs) (dirname req @ [''uploads'', u]) =
               map_option (sweep_partition ?c) (lookup fs (dirname req @ [''uploads'', u]))"
    by simp
  moreover from entry have
    "\<forall>u f q. lookup (cleanup_job req fs) (dirname req @ ''uploads'' # u # f # q) =
               (case lookup fs (dirname req @ [''uploads'', u, f]) of
                  None \<Rightarrow> None
                | Some n \<Rightarrow> if birthtime (stats_of n) < ?c then None else lookup n q)"
    by simp
  ultimately show ?thesis using out idem by blast
qed

lemma example_entries:
  "lookup example_fs (alice_dir @ [''old.mp4'']) =
     Some (File \<lparr>birthtime = 1699900000000, bytes = 10\<rparr>)"
  "lookup example_fs (alice_dir @ [''new.MP4'']) =
     Some (File \<lparr>birthtime = 1699999000000, bytes = 20\<rparr>)"
  "dirname example_req @ [''uploads'', ''alice_example_com'', ''old.mp4''] = alice_dir @ [''old.mp4'']"
  "dirname example_req @ [''uploads'', ''alice_example_com'', ''new.MP4''] = alice_dir @ [''new.MP4'']"
  by (simp_all add: example_fs_def example_req_def alice_dir_def)

theorem C4_retention_sweep_witness:
  "wf_node example_fs \<and>
   lookup example_fs (alice_dir @ [''old.mp4'']) =
     Some (File \<lparr>birthtime = 1699900000000, bytes = 10\<rparr>) \<and>
   lookup (cleanup_job example_req example_fs) (alice_dir @ [''old.mp4'']) = None \<and>
   lookup (cleanup_job example_req example_fs) (alice_dir @ [''new.MP4'']) =
     Some (File \<lparr>birthtime = 1699999000000, bytes = 20\<rparr>) \<and>
   cleanup_job example_req (cleanup_job example_req example_fs) =
     cleanup_job example_req example_fs"
proof -
  note th = C4_retention_sweep [OF example_wf, of example_req]
  from th have e: "lookup (cleanup_job example_req example_fs)
                 (dirname example_req @ ''uploads'' # u # f # q) =
               (case lookup example_fs (dirname example_req @ [''uploads'', u, f]) of
                  None \<Rightarrow> None
                | Some n \<Rightarrow>
                    if birthtime (stats_of n) < now example_req - 24 * 60 * 60 * 1000 then None
                    else lookup n q)" for u f q
    by blast
  from th have i: "cleanup_job example_req (cleanup_job example_req example_fs) =
     cleanup_job example_req example_fs" by blast
  have old: "lookup (cleanup_job example_req example_fs) (alice_dir @ [''old.mp4'']) = None"
    using e [of "''alice_example_com''" "''old.mp4''" "[]"]
    by (simp add: example_entries later_req_facts(4))
  have new: "lookup (cleanup_job example_req example_fs) (alice_dir @ [''new.MP4'']) =
     Some (File \<lparr>birthtime = 1699999000000, bytes = 20\<rparr>)"
    using e [of "''alice_example_com''" "''new.MP4''" "[]"]
    by (simp add: example_entries later_req_facts(4))
  show ?thesis
    using example_wf old new i example_entries by simp
qed

end
